theory Spec2Isabelle
  imports Main "HOL-Library.AList"
begin

section \<open>Data model (types.ts)\<close>

text \<open>
  A JavaScript \<open>Date\<close> is modelled by its time value: the number of milliseconds since
  1970-01-01T00:00:00Z, an integer. Invalid dates are outside the model. Counters are
  JavaScript numbers that only ever hold integers; they are modelled as \<open>int\<close>.
  A nullable string is a \<open>string option\<close>.

  A function that reads the clock (\<open>new Date()\<close>, \<open>Date.now()\<close>) takes the reading as
  its parameter \<open>now\<close>; the readings within one call are taken to be equal. Only
  \<open>fetchedAt\<close> and the recency cutoff depend on them.
\<close>

type_synonym date = int

record ContributorData =
  username :: string
  name :: "string option"
  email :: "string option"
  location :: "string option"
  bio :: "string option"
  company :: "string option"
  twitter :: "string option"
  blog :: "string option"
  profileUrl :: string
  totalContributions :: int
  pullRequests :: int
  issues :: int
  commits :: int
  notableContributions :: "string list"
  firstContribution :: "date option"
  lastContribution :: "date option"
  repoName :: string
  fetchedAt :: date

record RepoConfig =
  owner :: string
  repo :: string
  fullName :: string

text \<open>
  \<open>FetchOptions\<close>: every field is optional in the source. For the two numeric options
  \<open>None\<close> stands for \<open>undefined\<close> or \<open>NaN\<close> (what \<open>parseInt\<close> gives on a string
  that is not a number); both are falsy, and the source only ever tests these options
  for truthiness before it uses them.
\<close>

record FetchOptions =
  locationFilter :: "string list option"
  minContributions :: "int option"
  activeWithinMonths :: "int option"
  includeIssueCreators :: "bool option"
  includePRAuthors :: "bool option"
  includeCommitters :: "bool option"

datatype error = Error string

section \<open>JavaScript built-ins used by the program\<close>

text \<open>\<open>s.startsWith(p)\<close> and \<open>s.includes(p)\<close> on strings.\<close>

fun startsWith :: "string \<Rightarrow> string \<Rightarrow> bool" where
  "startsWith s [] = True"
| "startsWith [] (p # ps) = False"
| "startsWith (c # cs) (p # ps) = (c = p \<and> startsWith cs ps)"

fun str_includes :: "string \<Rightarrow> string \<Rightarrow> bool" where
  "str_includes [] p = (p = [])"
| "str_includes (c # cs) p = (startsWith (c # cs) p \<or> str_includes cs p)"

text \<open>
  \<open>Array.from(new Set(xs))\<close>: the elements of \<open>xs\<close> in the order of their first
  occurrence, each once. (\<open>remdups\<close> of the library keeps the last occurrences.)
\<close>

fun unique_from :: "'a list \<Rightarrow> 'a list \<Rightarrow> 'a list" where
  "unique_from seen [] = []"
| "unique_from seen (x # xs) =
     (if x \<in> set seen then unique_from seen xs else x # unique_from (x # seen) xs)"

definition array_from_set :: "'a list \<Rightarrow> 'a list" where
  "array_from_set xs = unique_from [] xs"

text \<open>
  A \<open>Map<string, ContributorData>\<close> iterates in insertion order, and \<open>set\<close> on a key
  that is present replaces the value in place. It is an association list:
  \<open>map_of m k\<close> is \<open>m.get(k)\<close>, \<open>AList.update k v m\<close> is \<open>m.set(k, v)\<close>, and
  \<open>map snd m\<close> is \<open>Array.from(m.values())\<close>.
\<close>

type_synonym contributor_map = "(string \<times> ContributorData) list"

definition map_values :: "contributor_map \<Rightarrow> ContributorData list" where
  "map_values m = map snd m"

section \<open>CSVExporter.mergeContributors (csv-exporter.ts)\<close>

text \<open>
  The body of the \<open>else\<close> branch: the update of the record \<open>existing\<close> already in the
  map by the record \<open>contributor\<close> of the new list. The source mutates \<open>existing\<close> in
  place; the model returns the updated record, which the caller stores under the same
  key. This is the same thing as long as the two arrays hold pairwise different objects,
  which is how \<open>main\<close> calls it (the new array is freshly built by every fetch).
  \<open>now\<close> is the reading of the clock (\<open>new Date()\<close>).
\<close>

definition merge_dates_first :: "date option \<Rightarrow> date option \<Rightarrow> date option" where
  "merge_dates_first ex new =
     (case new of None \<Rightarrow> ex
      | Some d \<Rightarrow> (case ex of None \<Rightarrow> Some d
                   | Some e \<Rightarrow> if d < e then Some d else Some e))"

definition merge_dates_last :: "date option \<Rightarrow> date option \<Rightarrow> date option" where
  "merge_dates_last ex new =
     (case new of None \<Rightarrow> ex
      | Some d \<Rightarrow> (case ex of None \<Rightarrow> Some d
                   | Some e \<Rightarrow> if d > e then Some d else Some e))"

definition merge_record :: "date \<Rightarrow> ContributorData \<Rightarrow> ContributorData \<Rightarrow> ContributorData" where
  "merge_record now existing contributor =
     existing
       \<lparr> totalContributions := totalContributions existing + totalContributions contributor,
         pullRequests := pullRequests existing + pullRequests contributor,
         issues := issues existing + issues contributor,
         commits := commits existing + commits contributor,
         notableContributions :=
           take 5 (array_from_set (notableContributions existing @ notableContributions contributor)),
         firstContribution :=
           merge_dates_first (firstContribution existing) (firstContribution contributor),
         lastContribution :=
           merge_dates_last (lastContribution existing) (lastContribution contributor),
         repoName :=
           (if \<not> str_includes (repoName existing) (repoName contributor)
            then repoName existing @ '', '' @ repoName contributor
            else repoName existing),
         fetchedAt := now \<rparr>"

text \<open>The first loop: \<open>merged.set(contributor.username, contributor)\<close>.\<close>

fun add_existing :: "contributor_map \<Rightarrow> ContributorData list \<Rightarrow> contributor_map" where
  "add_existing merged [] = merged"
| "add_existing merged (contributor # rest) =
     add_existing (AList.update (username contributor) contributor merged) rest"

text \<open>The second loop: merge or add.\<close>

fun merge_new :: "date \<Rightarrow> contributor_map \<Rightarrow> ContributorData list \<Rightarrow> contributor_map" where
  "merge_new now merged [] = merged"
| "merge_new now merged (contributor # rest) =
     (case map_of merged (username contributor) of
        None \<Rightarrow> merge_new now (AList.update (username contributor) contributor merged) rest
      | Some existing \<Rightarrow>
          merge_new now
            (AList.update (username contributor) (merge_record now existing contributor) merged)
            rest)"

definition mergeContributors ::
  "date \<Rightarrow> ContributorData list \<Rightarrow> ContributorData list \<Rightarrow> ContributorData list" where
  "mergeContributors now existingContributors newContributors =
     map_values (merge_new now (add_existing [] existingContributors) newContributors)"

section \<open>GitHubClient.parseRepo (github-client.ts)\<close>

text \<open>\<open>s.split(sep)\<close> with a one-character separator: never the empty array.\<close>

fun split_on :: "char \<Rightarrow> string \<Rightarrow> string list" where
  "split_on sep [] = [[]]"
| "split_on sep (c # cs) =
     (if c = sep then [] # split_on sep cs
      else (case split_on sep cs of
              [] \<Rightarrow> [[c]]
            | part # parts \<Rightarrow> (c # part) # parts))"

text \<open>
  \<open>s.replace(pat, rep)\<close> with a string pattern: only the first occurrence of \<open>pat\<close>,
  wherever it is, is replaced.
\<close>

fun replace_first :: "string \<Rightarrow> string \<Rightarrow> string \<Rightarrow> string" where
  "replace_first [] pat rep = (if pat = [] then rep else [])"
| "replace_first (c # cs) pat rep =
     (if startsWith (c # cs) pat then rep @ drop (length pat) (c # cs)
      else c # replace_first cs pat rep)"

text \<open>
  \<open>repoInput.match(/github\.com\/([^\/]+)\/([^\/]+)/)\<close>. \<open>match_here\<close> tries the
  pattern at the start of its argument: the literal \<open>github.com/\<close>, then a non-empty
  group of characters other than \<open>/\<close>, a \<open>/\<close>, and a second non-empty such group.
  Both groups are greedy, and the first must be followed by \<open>/\<close>, so each is the longest
  run of non-slash characters. \<open>regex_match\<close> returns the two groups of the leftmost match.
\<close>

definition not_slash :: "char \<Rightarrow> bool" where
  "not_slash c = (c \<noteq> CHR ''/'')"

definition match_here :: "string \<Rightarrow> (string \<times> string) option" where
  "match_here s =
     (if startsWith s ''github.com/'' then
        (let rest = drop 11 s;
             group1 = takeWhile not_slash rest
         in if group1 = [] then None
            else (case dropWhile not_slash rest of
                    [] \<Rightarrow> None
                  | slash # rest2 \<Rightarrow>
                      (let group2 = takeWhile not_slash rest2
                       in if group2 = [] then None else Some (group1, group2))))
      else None)"

fun regex_match :: "string \<Rightarrow> (string \<times> string) option" where
  "regex_match [] = None"
| "regex_match (c # cs) =
     (case match_here (c # cs) of
        Some groups \<Rightarrow> Some groups
      | None \<Rightarrow> regex_match cs)"

definition parseRepo :: "string \<Rightarrow> error + RepoConfig" where
  "parseRepo repoInput =
     (if str_includes repoInput ''github.com'' then
        (case regex_match repoInput of
           None \<Rightarrow> Inl (Error (''Invalid GitHub URL: '' @ repoInput))
         | Some (m1, m2) \<Rightarrow>
             Inr \<lparr> owner = m1,
                   repo = replace_first m2 ''.git'' [],
                   fullName = m1 @ ''/'' @ replace_first m2 ''.git'' [] \<rparr>)
      else
        (let parts = split_on CHR ''/'' repoInput
         in if length parts \<noteq> 2 then
              Inl (Error (''Invalid repo format: '' @ repoInput
                          @ ''. Use 'owner/repo' or full GitHub URL''))
            else Inr \<lparr> owner = parts ! 0, repo = parts ! 1, fullName = repoInput \<rparr>))"

section \<open>The hosting API as the client sees it\<close>

text \<open>
  The responses of the REST API are the program's input. A user profile as returned by
  \<open>users.getByUsername\<close> (the fields the client reads, prefixed with \<open>u_\<close> here to keep
  them apart from the fields of \<open>ContributorData\<close>), an entry of
  \<open>repos.listContributors\<close>, a pull request and an issue. \<open>created_at\<close> is held as the
  time value that \<open>new Date(created_at)\<close> gives; \<open>user?.login\<close> is \<open>None\<close> when the
  user or the login is missing.
\<close>

record UserProfile =
  u_login :: "string option"
  u_name :: "string option"
  u_email :: "string option"
  u_location :: "string option"
  u_bio :: "string option"
  u_company :: "string option"
  u_twitter_username :: "string option"
  u_blog :: "string option"
  u_html_url :: string

record ContributorEntry =
  c_type :: string
  c_login :: "string option"
  c_contributions :: int

record PullEntry =
  pr_created_at :: date
  pr_user_login :: "string option"
  pr_title :: string

record IssueEntry =
  is_pull_request :: bool
  is_created_at :: date
  is_user_login :: "string option"
  is_title :: string

text \<open>
  The four requests of \<open>Octokit\<close> that the client makes. A request either fails (the
  promise rejects, \<open>Inl\<close>) or returns \<open>response.data\<close>. The list requests take owner,
  repository name and, when paginated, the page number. The other parameters of the
  requests are constants of the source. A request is answered the same way each time it
  is made.
\<close>

record Octokit =
  repos_listContributors :: "string \<Rightarrow> string \<Rightarrow> error + ContributorEntry list"
  pulls_list :: "string \<Rightarrow> string \<Rightarrow> nat \<Rightarrow> error + PullEntry list"
  issues_listForRepo :: "string \<Rightarrow> string \<Rightarrow> nat \<Rightarrow> error + IssueEntry list"
  users_getByUsername :: "string \<Rightarrow> error + UserProfile"

section \<open>GitHubClient.fetchUserProfile and matchesLocation\<close>

definition fetchUserProfile :: "Octokit \<Rightarrow> string \<Rightarrow> UserProfile" where
  "fetchUserProfile octokit uname =
     (case users_getByUsername octokit uname of
        Inr data \<Rightarrow> data
      | Inl err \<Rightarrow>
          \<lparr> u_login = Some uname,
            u_name = None,
            u_email = None,
            u_location = None,
            u_bio = None,
            u_company = None,
            u_twitter_username = None,
            u_blog = None,
            u_html_url = ''https://github.com/'' @ uname \<rparr>)"

text \<open>
  \<open>toLowerCase\<close>, on the ASCII letters (a \<open>char\<close> is a byte; the letters beyond ASCII stay
  as they are in this model).
\<close>

definition lower_char :: "char \<Rightarrow> char" where
  "lower_char c =
     (if 65 \<le> (of_char c :: nat) \<and> (of_char c :: nat) \<le> 90
      then char_of ((of_char c :: nat) + 32) else c)"

definition toLowerCase :: "string \<Rightarrow> string" where
  "toLowerCase s = map lower_char s"

definition matchesLocation :: "string \<Rightarrow> string list \<Rightarrow> bool" where
  "matchesLocation loc filters =
     list_ex (\<lambda>f. str_includes (toLowerCase loc) (toLowerCase f)) filters"

text \<open>
  The location test made when a username is first seen; \<open>True\<close> means the entry is
  skipped (\<open>continue\<close>). A \<open>null\<close> and an empty location are both falsy.
\<close>

definition location_rejected :: "FetchOptions \<Rightarrow> UserProfile \<Rightarrow> bool" where
  "location_rejected options profile =
     (case locationFilter options of
        None \<Rightarrow> False
      | Some filters \<Rightarrow>
          if length filters > 0 then
            (case u_location profile of
               None \<Rightarrow> True
             | Some loc \<Rightarrow> loc = [] \<or> \<not> matchesLocation loc filters)
          else False)"

text \<open>
  The record written when a username is first seen. The three passes differ in the
  counters, the title and the date only.
\<close>

definition new_record ::
  "date \<Rightarrow> RepoConfig \<Rightarrow> string \<Rightarrow> UserProfile \<Rightarrow> int \<Rightarrow> int \<Rightarrow> int \<Rightarrow> int \<Rightarrow>
   string list \<Rightarrow> date option \<Rightarrow> ContributorData" where
  "new_record now repoConfig uname profile tot prs iss cms titles created =
     \<lparr> username = uname,
       name = u_name profile,
       email = u_email profile,
       location = u_location profile,
       bio = u_bio profile,
       company = u_company profile,
       twitter = u_twitter_username profile,
       blog = u_blog profile,
       profileUrl = u_html_url profile,
       totalContributions = tot,
       pullRequests = prs,
       issues = iss,
       commits = cms,
       notableContributions = titles,
       firstContribution = created,
       lastContribution = created,
       repoName = fullName repoConfig,
       fetchedAt = now \<rparr>"

section \<open>GitHubClient.fetchCommitters\<close>

text \<open>One iteration of the loop over \<open>response.data\<close>.\<close>

definition committer_step ::
  "Octokit \<Rightarrow> date \<Rightarrow> RepoConfig \<Rightarrow> FetchOptions \<Rightarrow> ContributorEntry \<Rightarrow>
   contributor_map \<Rightarrow> contributor_map" where
  "committer_step octokit now repoConfig options contributor contributors =
     (if c_type contributor \<noteq> ''User'' then contributors
      else (case c_login contributor of
              None \<Rightarrow> contributors
            | Some uname \<Rightarrow>
                if uname = [] then contributors
                else (case map_of contributors uname of
                        None \<Rightarrow>
                          (let profile = fetchUserProfile octokit uname
                           in if location_rejected options profile then contributors
                              else AList.update uname
                                     (new_record now repoConfig uname profile
                                        (c_contributions contributor) 0 0
                                        (c_contributions contributor) [] None)
                                     contributors)
                      | Some existing \<Rightarrow>
                          AList.update uname
                            (existing
                               \<lparr> commits := commits existing + c_contributions contributor,
                                 totalContributions :=
                                   totalContributions existing + c_contributions contributor \<rparr>)
                            contributors)))"

fun committer_loop ::
  "Octokit \<Rightarrow> date \<Rightarrow> RepoConfig \<Rightarrow> FetchOptions \<Rightarrow> ContributorEntry list \<Rightarrow>
   contributor_map \<Rightarrow> contributor_map" where
  "committer_loop octokit now repoConfig options [] contributors = contributors"
| "committer_loop octokit now repoConfig options (contributor # rest) contributors =
     committer_loop octokit now repoConfig options rest
       (committer_step octokit now repoConfig options contributor contributors)"

text \<open>A failed request is caught and logged; the map stays as it was.\<close>

definition fetchCommitters ::
  "Octokit \<Rightarrow> date \<Rightarrow> RepoConfig \<Rightarrow> contributor_map \<Rightarrow> FetchOptions \<Rightarrow> contributor_map" where
  "fetchCommitters octokit now repoConfig contributors options =
     (case repos_listContributors octokit (owner repoConfig) (repo repoConfig) of
        Inl err \<Rightarrow> contributors
      | Inr data \<Rightarrow> committer_loop octokit now repoConfig options data contributors)"

section \<open>GitHubClient.fetchPRAuthors and fetchIssueCreators\<close>

text \<open>
  \<open>cutoffDate\<close>: absent when \<open>activeWithinMonths\<close> is falsy (missing, \<open>NaN\<close> or 0).
  \<open>now\<close> is \<open>Date.now()\<close>.
\<close>

definition cutoffDate :: "date \<Rightarrow> FetchOptions \<Rightarrow> date option" where
  "cutoffDate now options =
     (case activeWithinMonths options of
        None \<Rightarrow> None
      | Some months \<Rightarrow>
          if months = 0 then None
          else Some (now - months * 30 * 24 * 60 * 60 * 1000))"

definition before_cutoff :: "date option \<Rightarrow> date \<Rightarrow> bool" where
  "before_cutoff cutoff created =
     (case cutoff of None \<Rightarrow> False | Some c \<Rightarrow> created < c)"

text \<open>
  The updates of a record that is already in the map, shared in shape by the two passes:
  \<open>if (existing.notableContributions.length < 5) push(title)\<close>, and the two date
  updates.
\<close>

definition push_title :: "string list \<Rightarrow> string \<Rightarrow> string list" where
  "push_title titles title = (if length titles < 5 then titles @ [title] else titles)"

definition update_first :: "date option \<Rightarrow> date \<Rightarrow> date option" where
  "update_first ex d =
     (case ex of None \<Rightarrow> Some d | Some e \<Rightarrow> if d < e then Some d else Some e)"

definition update_last :: "date option \<Rightarrow> date \<Rightarrow> date option" where
  "update_last ex d =
     (case ex of None \<Rightarrow> Some d | Some e \<Rightarrow> if d > e then Some d else Some e)"

definition pr_update :: "ContributorData \<Rightarrow> PullEntry \<Rightarrow> ContributorData" where
  "pr_update existing pr =
     existing
       \<lparr> pullRequests := pullRequests existing + 1,
         totalContributions := totalContributions existing + 1,
         notableContributions := push_title (notableContributions existing) (pr_title pr),
         firstContribution := update_first (firstContribution existing) (pr_created_at pr),
         lastContribution := update_last (lastContribution existing) (pr_created_at pr) \<rparr>"

definition issue_update :: "ContributorData \<Rightarrow> IssueEntry \<Rightarrow> ContributorData" where
  "issue_update existing issue =
     existing
       \<lparr> issues := issues existing + 1,
         totalContributions := totalContributions existing + 1,
         notableContributions := push_title (notableContributions existing) (is_title issue),
         firstContribution := update_first (firstContribution existing) (is_created_at issue),
         lastContribution := update_last (lastContribution existing) (is_created_at issue) \<rparr>"

text \<open>
  One iteration of the loop over the pull requests of a page, after the cutoff test.
  (\<open>prCount\<close> is only logged and is left out.)
\<close>

definition pr_step ::
  "Octokit \<Rightarrow> date \<Rightarrow> RepoConfig \<Rightarrow> FetchOptions \<Rightarrow> PullEntry \<Rightarrow>
   contributor_map \<Rightarrow> contributor_map" where
  "pr_step octokit now repoConfig options pr contributors =
     (case pr_user_login pr of
        None \<Rightarrow> contributors
      | Some uname \<Rightarrow>
          if uname = [] then contributors
          else (case map_of contributors uname of
                  None \<Rightarrow>
                    (let profile = fetchUserProfile octokit uname
                     in if location_rejected options profile then contributors
                        else AList.update uname
                               (new_record now repoConfig uname profile 1 1 0 0
                                  [pr_title pr] (Some (pr_created_at pr)))
                               contributors)
                | Some existing \<Rightarrow>
                    AList.update uname (pr_update existing pr) contributors))"

text \<open>
  The loop over one page. The second component is \<open>hasMore\<close>: it becomes \<open>False\<close> at
  the first pull request older than the cutoff, where the loop breaks.
\<close>

fun pr_loop ::
  "Octokit \<Rightarrow> date \<Rightarrow> RepoConfig \<Rightarrow> FetchOptions \<Rightarrow> date option \<Rightarrow> PullEntry list \<Rightarrow>
   contributor_map \<Rightarrow> contributor_map \<times> bool" where
  "pr_loop octokit now repoConfig options cutoff [] contributors = (contributors, True)"
| "pr_loop octokit now repoConfig options cutoff (pr # rest) contributors =
     (if before_cutoff cutoff (pr_created_at pr) then (contributors, False)
      else pr_loop octokit now repoConfig options cutoff rest
             (pr_step octokit now repoConfig options pr contributors))"

text \<open>
  \<open>while (hasMore && page <= 3)\<close>. A failed request leaves the loop through the
  \<open>catch\<close> with the map as filled so far; so does an empty page.
\<close>

function pr_pages ::
  "Octokit \<Rightarrow> date \<Rightarrow> RepoConfig \<Rightarrow> FetchOptions \<Rightarrow> date option \<Rightarrow> nat \<Rightarrow>
   contributor_map \<Rightarrow> contributor_map" where
  "pr_pages octokit now repoConfig options cutoff page contributors =
     (if page \<le> 3 then
        (case pulls_list octokit (owner repoConfig) (repo repoConfig) page of
           Inl err \<Rightarrow> contributors
         | Inr data \<Rightarrow>
             if length data = 0 then contributors
             else (case pr_loop octokit now repoConfig options cutoff data contributors of
                     (contributors', hasMore) \<Rightarrow>
                       if hasMore
                       then pr_pages octokit now repoConfig options cutoff (page + 1) contributors'
                       else contributors'))
      else contributors)"
  by pat_completeness auto
termination
  by (relation "measure (\<lambda>(octokit, now, repoConfig, options, cutoff, page, contributors). 4 - page)")
     auto

definition fetchPRAuthors ::
  "Octokit \<Rightarrow> date \<Rightarrow> RepoConfig \<Rightarrow> contributor_map \<Rightarrow> FetchOptions \<Rightarrow> contributor_map" where
  "fetchPRAuthors octokit now repoConfig contributors options =
     pr_pages octokit now repoConfig options (cutoffDate now options) 1 contributors"

text \<open>The issue pass: the same, after skipping the pull requests of the issues endpoint.\<close>

definition issue_step ::
  "Octokit \<Rightarrow> date \<Rightarrow> RepoConfig \<Rightarrow> FetchOptions \<Rightarrow> IssueEntry \<Rightarrow>
   contributor_map \<Rightarrow> contributor_map" where
  "issue_step octokit now repoConfig options issue contributors =
     (case is_user_login issue of
        None \<Rightarrow> contributors
      | Some uname \<Rightarrow>
          if uname = [] then contributors
          else (case map_of contributors uname of
                  None \<Rightarrow>
                    (let profile = fetchUserProfile octokit uname
                     in if location_rejected options profile then contributors
                        else AList.update uname
                               (new_record now repoConfig uname profile 1 0 1 0
                                  [is_title issue] (Some (is_created_at issue)))
                               contributors)
                | Some existing \<Rightarrow>
                    AList.update uname (issue_update existing issue) contributors))"

fun issue_loop ::
  "Octokit \<Rightarrow> date \<Rightarrow> RepoConfig \<Rightarrow> FetchOptions \<Rightarrow> date option \<Rightarrow> IssueEntry list \<Rightarrow>
   contributor_map \<Rightarrow> contributor_map \<times> bool" where
  "issue_loop octokit now repoConfig options cutoff [] contributors = (contributors, True)"
| "issue_loop octokit now repoConfig options cutoff (issue # rest) contributors =
     (if is_pull_request issue
      then issue_loop octokit now repoConfig options cutoff rest contributors
      else if before_cutoff cutoff (is_created_at issue) then (contributors, False)
      else issue_loop octokit now repoConfig options cutoff rest
             (issue_step octokit now repoConfig options issue contributors))"

function issue_pages ::
  "Octokit \<Rightarrow> date \<Rightarrow> RepoConfig \<Rightarrow> FetchOptions \<Rightarrow> date option \<Rightarrow> nat \<Rightarrow>
   contributor_map \<Rightarrow> contributor_map" where
  "issue_pages octokit now repoConfig options cutoff page contributors =
     (if page \<le> 3 then
        (case issues_listForRepo octokit (owner repoConfig) (repo repoConfig) page of
           Inl err \<Rightarrow> contributors
         | Inr data \<Rightarrow>
             if length data = 0 then contributors
             else (case issue_loop octokit now repoConfig options cutoff data contributors of
                     (contributors', hasMore) \<Rightarrow>
                       if hasMore
                       then issue_pages octokit now repoConfig options cutoff (page + 1) contributors'
                       else contributors'))
      else contributors)"
  by pat_completeness auto
termination
  by (relation "measure (\<lambda>(octokit, now, repoConfig, options, cutoff, page, contributors). 4 - page)")
     auto

definition fetchIssueCreators ::
  "Octokit \<Rightarrow> date \<Rightarrow> RepoConfig \<Rightarrow> contributor_map \<Rightarrow> FetchOptions \<Rightarrow> contributor_map" where
  "fetchIssueCreators octokit now repoConfig contributors options =
     issue_pages octokit now repoConfig options (cutoffDate now options) 1 contributors"

section \<open>GitHubClient.fetchContributors\<close>

definition fetchContributors ::
  "Octokit \<Rightarrow> date \<Rightarrow> RepoConfig \<Rightarrow> FetchOptions \<Rightarrow> ContributorData list" where
  "fetchContributors octokit now repoConfig options =
     (let contributors0 = [];
          contributors1 =
            (if includeCommitters options \<noteq> Some False
             then fetchCommitters octokit now repoConfig contributors0 options
             else contributors0);
          contributors2 =
            (if includePRAuthors options \<noteq> Some False
             then fetchPRAuthors octokit now repoConfig contributors1 options
             else contributors1);
          contributors3 =
            (if includeIssueCreators options \<noteq> Some False
             then fetchIssueCreators octokit now repoConfig contributors2 options
             else contributors2)
      in map_values contributors3)"

section \<open>main (index.ts): fetch, filter, merge, sort\<close>

text \<open>
  \<open>options.minContributions || 1\<close>: a missing, \<open>NaN\<close> or zero option counts as 1.
\<close>

definition min_threshold :: "FetchOptions \<Rightarrow> int" where
  "min_threshold options =
     (case minContributions options of
        None \<Rightarrow> 1
      | Some m \<Rightarrow> if m = 0 then 1 else m)"

text \<open>
  \<open>contributors.filter(c => c.totalContributions >= (options.minContributions || 1))\<close>.
\<close>

definition filter_by_minimum :: "FetchOptions \<Rightarrow> ContributorData list \<Rightarrow> ContributorData list" where
  "filter_by_minimum options contributors =
     filter (\<lambda>c. totalContributions c \<ge> min_threshold options) contributors"

text \<open>
  The body of the loop over the repository arguments. An exception (of \<open>parseRepo\<close>) is
  caught and logged, and the loop goes on with the next argument.
\<close>

definition process_repo ::
  "Octokit \<Rightarrow> date \<Rightarrow> FetchOptions \<Rightarrow> ContributorData list \<Rightarrow> string \<Rightarrow>
   ContributorData list" where
  "process_repo octokit now options allContributors repoInput =
     (case parseRepo repoInput of
        Inl err \<Rightarrow> allContributors
      | Inr repoConfig \<Rightarrow>
          (let contributors = fetchContributors octokit now repoConfig options;
               filtered = filter_by_minimum options contributors
           in mergeContributors now allContributors filtered))"

fun process_repos ::
  "Octokit \<Rightarrow> date \<Rightarrow> FetchOptions \<Rightarrow> ContributorData list \<Rightarrow> string list \<Rightarrow>
   ContributorData list" where
  "process_repos octokit now options allContributors [] = allContributors"
| "process_repos octokit now options allContributors (repoInput # repos) =
     process_repos octokit now options
       (process_repo octokit now options allContributors repoInput) repos"

text \<open>
  \<open>allContributors.sort((a, b) => b.totalContributions - a.totalContributions)\<close>:
  \<open>Array.prototype.sort\<close> is stable, as is the insertion sort \<open>sort_key\<close>.
  \<open>main_contributors\<close> is the array handed to the exporter.
\<close>

definition sort_by_total :: "ContributorData list \<Rightarrow> ContributorData list" where
  "sort_by_total cs = sort_key (\<lambda>c. - totalContributions c) cs"

definition main_contributors ::
  "Octokit \<Rightarrow> date \<Rightarrow> FetchOptions \<Rightarrow> string list \<Rightarrow> ContributorData list" where
  "main_contributors octokit now options repos =
     sort_by_total (process_repos octokit now options [] repos)"

section \<open>CSVExporter.exportToCSV: the records written\<close>

text \<open>\<open>xs.join(sep)\<close>.\<close>

fun join :: "string \<Rightarrow> string list \<Rightarrow> string" where
  "join sep [] = []"
| "join sep [x] = x"
| "join sep (x # y # ys) = x @ sep @ join sep (y # ys)"

text \<open>
  \<open>Date.prototype.toISOString\<close>. The day number of a time value is split into the
  proleptic Gregorian year, month and day in UTC. Years 0 to 9999 print with four
  digits; any other year prints with a sign and six digits.
\<close>

definition digit :: "int \<Rightarrow> char" where
  "digit d = char_of (48 + nat d)"

definition pad2 :: "int \<Rightarrow> string" where
  "pad2 n = [digit (n div 10 mod 10), digit (n mod 10)]"

definition pad3 :: "int \<Rightarrow> string" where
  "pad3 n = digit (n div 100 mod 10) # pad2 n"

definition pad4 :: "int \<Rightarrow> string" where
  "pad4 n = digit (n div 1000 mod 10) # pad3 n"

definition pad6 :: "int \<Rightarrow> string" where
  "pad6 n = digit (n div 100000 mod 10) # digit (n div 10000 mod 10) # pad4 n"

definition civil_from_days :: "int \<Rightarrow> int \<times> int \<times> int" where
  "civil_from_days z =
     (let z' = z + 719468;
          era = z' div 146097;
          doe = z' mod 146097;
          yoe = (doe - doe div 1460 + doe div 36524 - doe div 146096) div 365;
          y = yoe + era * 400;
          doy = doe - (365 * yoe + yoe div 4 - yoe div 100);
          mp = (5 * doy + 2) div 153;
          d = doy - (153 * mp + 2) div 5 + 1;
          m = (if mp < 10 then mp + 3 else mp - 9)
      in (if m \<le> 2 then y + 1 else y, m, d))"

definition iso_year :: "int \<Rightarrow> string" where
  "iso_year y =
     (if 0 \<le> y \<and> y \<le> 9999 then pad4 y
      else (if y < 0 then ''-'' else ''+'') @ pad6 \<bar>y\<bar>)"

definition toISOString :: "date \<Rightarrow> string" where
  "toISOString t =
     (case civil_from_days (t div 86400000) of
        (y, m, d) \<Rightarrow>
          (let ms = t mod 86400000
           in iso_year y @ ''-'' @ pad2 m @ ''-'' @ pad2 d @ ''T''
              @ pad2 (ms div 3600000) @ '':'' @ pad2 (ms div 60000 mod 60) @ '':''
              @ pad2 (ms div 1000 mod 60) @ ''.'' @ pad3 (ms mod 1000) @ ''Z''))"

text \<open>
  \<open>d.toISOString().split('T')[0]\<close>, and
  \<open>d?.toISOString().split('T')[0] || ''\<close> for a nullable date.
\<close>

definition iso_day :: "date \<Rightarrow> string" where
  "iso_day t = split_on CHR ''T'' (toISOString t) ! 0"

definition render_date :: "date option \<Rightarrow> string" where
  "render_date d =
     (case d of
        None \<Rightarrow> []
      | Some t \<Rightarrow> if iso_day t = [] then [] else iso_day t)"

text \<open>
  The object written for one contributor: the contributor's own fields (the spread),
  with four of them replaced by strings.
\<close>

record CsvRecord =
  csv_username :: string
  csv_name :: "string option"
  csv_email :: "string option"
  csv_location :: "string option"
  csv_company :: "string option"
  csv_bio :: "string option"
  csv_twitter :: "string option"
  csv_blog :: "string option"
  csv_profileUrl :: string
  csv_repoName :: string
  csv_totalContributions :: int
  csv_commits :: int
  csv_pullRequests :: int
  csv_issues :: int
  csv_notableContributions :: string
  csv_firstContribution :: string
  csv_lastContribution :: string
  csv_fetchedAt :: string

definition csv_record :: "ContributorData \<Rightarrow> CsvRecord" where
  "csv_record contributor =
     \<lparr> csv_username = username contributor,
       csv_name = name contributor,
       csv_email = email contributor,
       csv_location = location contributor,
       csv_company = company contributor,
       csv_bio = bio contributor,
       csv_twitter = twitter contributor,
       csv_blog = blog contributor,
       csv_profileUrl = profileUrl contributor,
       csv_repoName = repoName contributor,
       csv_totalContributions = totalContributions contributor,
       csv_commits = commits contributor,
       csv_pullRequests = pullRequests contributor,
       csv_issues = issues contributor,
       csv_notableContributions = join '' | '' (take 3 (notableContributions contributor)),
       csv_firstContribution = render_date (firstContribution contributor),
       csv_lastContribution = render_date (lastContribution contributor),
       csv_fetchedAt = iso_day (fetchedAt contributor) \<rparr>"

definition exportToCSV :: "ContributorData list \<Rightarrow> CsvRecord list" where
  "exportToCSV contributors = map csv_record contributors"

section \<open>Auxiliary notions for the properties\<close>

text \<open>
  What the merge makes of a record \<open>e\<close> of the existing list: \<open>e\<close> itself when no
  record of the new list has its username, \<open>e\<close> updated by that record otherwise.
\<close>

definition merged_with :: "date \<Rightarrow> ContributorData list \<Rightarrow> ContributorData \<Rightarrow> ContributorData" where
  "merged_with now newContributors e =
     (case find (\<lambda>c. username c = username e) newContributors of
        None \<Rightarrow> e
      | Some c \<Rightarrow> merge_record now e c)"

text \<open>Every entry of a map is stored under its own username.\<close>

definition keyed :: "contributor_map \<Rightarrow> bool" where
  "keyed m = list_all (\<lambda>(k, v). username v = k) m"

text \<open>The invariant of the counters of a record.\<close>

definition counters_consistent :: "ContributorData \<Rightarrow> bool" where
  "counters_consistent c =
     (totalContributions c = commits c + pullRequests c + issues c)"


text \<open>
  A record with the given username, counters, titles and repository, and no profile
  data: the records of the examples.
\<close>

definition sample_record ::
  "string \<Rightarrow> int \<Rightarrow> int \<Rightarrow> int \<Rightarrow> string list \<Rightarrow> string \<Rightarrow> ContributorData" where
  "sample_record uname cms prs iss titles rname =
     \<lparr> username = uname, name = None, email = None, location = None, bio = None,
       company = None, twitter = None, blog = None,
       profileUrl = ''https://github.com/'' @ uname,
       totalContributions = cms + prs + iss, pullRequests = prs, issues = iss, commits = cms,
       notableContributions = titles, firstContribution = None, lastContribution = None,
       repoName = rname, fetchedAt = 0 \<rparr>"

text \<open>Two small result sets: \<open>alice\<close> is in both, \<open>carol\<close> only in the second.\<close>

definition example_existing :: "ContributorData list" where
  "example_existing =
     [sample_record ''alice'' 3 1 0 [''Fix bug''] ''acme/widgets'',
      sample_record ''bob'' 1 0 0 [] ''acme/widgets'']"

definition example_new :: "ContributorData list" where
  "example_new =
     [sample_record ''carol'' 0 1 0 [''Add docs''] ''acme/tools'',
      sample_record ''alice'' 2 0 1 [''Fix bug'', ''Report bug''] ''acme/tools'']"

text \<open>
  An API for the examples. Every repository reports \<open>alice\<close> with 3 commits and a bot
  account; the repository \<open>widgets\<close> has two pull requests of \<open>alice\<close> with the same
  title on its first page; there are no issues; every profile lookup fails.
\<close>

definition example_octokit :: Octokit where
  "example_octokit =
     \<lparr> repos_listContributors = (\<lambda>own rep.
         Inr [\<lparr> c_type = ''User'', c_login = Some ''alice'', c_contributions = 3 \<rparr>,
              \<lparr> c_type = ''Bot'', c_login = Some ''ci-bot'', c_contributions = 40 \<rparr>]),
       pulls_list = (\<lambda>own rep page.
         if rep = ''widgets'' \<and> page = 1
         then Inr [\<lparr> pr_created_at = 1717200000000, pr_user_login = Some ''alice'',
                     pr_title = ''Fix typo'' \<rparr>,
                   \<lparr> pr_created_at = 1704067200000, pr_user_login = Some ''alice'',
                     pr_title = ''Fix typo'' \<rparr>]
         else Inr []),
       issues_listForRepo = (\<lambda>own rep page. Inr []),
       users_getByUsername = (\<lambda>uname. Inl (Error ''Not Found'')) \<rparr>"

definition example_options :: "int option \<Rightarrow> FetchOptions" where
  "example_options minimum =
     \<lparr> locationFilter = None, minContributions = minimum, activeWithinMonths = None,
       includeIssueCreators = Some True, includePRAuthors = Some True,
       includeCommitters = Some True \<rparr>"

definition example_config :: RepoConfig where
  "example_config = \<lparr> owner = ''acme'', repo = ''widgets'', fullName = ''acme/widgets'' \<rparr>"

text \<open>
  The ranking stage in the words of the specification: the records of the fully merged
  set whose total reaches the threshold, sorted by total, descending. \<open>merged_unfiltered\<close>
  is the fully merged set: the merge of what each repository's fetch returns.
\<close>

fun merged_unfiltered ::
  "Octokit \<Rightarrow> date \<Rightarrow> FetchOptions \<Rightarrow> ContributorData list \<Rightarrow> string list \<Rightarrow>
   ContributorData list" where
  "merged_unfiltered octokit now options allContributors [] = allContributors"
| "merged_unfiltered octokit now options allContributors (repoInput # repos) =
     merged_unfiltered octokit now options
       (case parseRepo repoInput of
          Inl err \<Rightarrow> allContributors
        | Inr repoConfig \<Rightarrow>
            mergeContributors now allContributors (fetchContributors octokit now repoConfig options))
       repos"

definition spec_filter_and_rank :: "int \<Rightarrow> ContributorData list \<Rightarrow> ContributorData list" where
  "spec_filter_and_rank minimum merged =
     sort_by_total (filter (\<lambda>c. totalContributions c \<ge> minimum) merged)"

text \<open>The equations of the two page loops are unfolded by hand in the proofs.\<close>

declare pr_pages.simps [simp del] issue_pages.simps [simp del]

text \<open>
  The profile that \<open>fetchUserProfile\<close> substitutes when the lookup fails, and the record
  that a pass creates from it.
\<close>

definition placeholder_profile :: "string \<Rightarrow> UserProfile" where
  "placeholder_profile uname =
     \<lparr> u_login = Some uname, u_name = None, u_email = None, u_location = None, u_bio = None,
       u_company = None, u_twitter_username = None, u_blog = None,
       u_html_url = ''https://github.com/'' @ uname \<rparr>"

definition profile_fields_null :: "ContributorData \<Rightarrow> bool" where
  "profile_fields_null c =
     (name c = None \<and> email c = None \<and> location c = None \<and> bio c = None
      \<and> company c = None \<and> twitter c = None \<and> blog c = None
      \<and> profileUrl c = ''https://github.com/'' @ username c)"

text \<open>A location filter is configured: the option is present and not the empty array.\<close>

definition location_filter_set :: "FetchOptions \<Rightarrow> bool" where
  "location_filter_set options =
     (case locationFilter options of None \<Rightarrow> False | Some filters \<Rightarrow> filters \<noteq> [])"

text \<open>
  The UTC calendar date of a time value, whether its year has four digits, its
  \<open>YYYY-MM-DD\<close> rendering, and the test that a string has that form.
\<close>

definition utc_date :: "date \<Rightarrow> int \<times> int \<times> int" where
  "utc_date t = civil_from_days (t div 86400000)"

definition four_digit_year :: "date \<Rightarrow> bool" where
  "four_digit_year t = (case utc_date t of (y, m, d) \<Rightarrow> 0 \<le> y \<and> y \<le> 9999)"

definition year_month_day :: "date \<Rightarrow> string" where
  "year_month_day t =
     (case utc_date t of (y, m, d) \<Rightarrow> pad4 y @ ''-'' @ pad2 m @ ''-'' @ pad2 d)"

definition is_digit :: "char \<Rightarrow> bool" where
  "is_digit c = (48 \<le> (of_char c :: nat) \<and> (of_char c :: nat) \<le> 57)"

fun is_YYYY_MM_DD :: "string \<Rightarrow> bool" where
  "is_YYYY_MM_DD [y1, y2, y3, y4, s1, m1, m2, s2, d1, d2] =
     (is_digit y1 \<and> is_digit y2 \<and> is_digit y3 \<and> is_digit y4 \<and> s1 = CHR ''-''
      \<and> is_digit m1 \<and> is_digit m2 \<and> s2 = CHR ''-'' \<and> is_digit d1 \<and> is_digit d2)"
| "is_YYYY_MM_DD s = False"

text \<open>A map as the program builds it: one entry per username, stored under it.\<close>

definition well_keyed :: "contributor_map \<Rightarrow> bool" where
  "well_keyed m = (keyed m \<and> distinct (map fst m))"

text \<open>
  The worked example of the specification: \<open>alice\<close> with a commit count of 10, a pull
  request \<open>Fix bug\<close> of 2024-01-01 and an issue \<open>Report bug\<close> of 2024-06-01.
\<close>

definition alice_octokit :: Octokit where
  "alice_octokit =
     \<lparr> repos_listContributors = (\<lambda>own rep.
         Inr [\<lparr> c_type = ''User'', c_login = Some ''alice'', c_contributions = 10 \<rparr>]),
       pulls_list = (\<lambda>own rep page.
         if page = 1
         then Inr [\<lparr> pr_created_at = 1704067200000, pr_user_login = Some ''alice'',
                     pr_title = ''Fix bug'' \<rparr>]
         else Inr []),
       issues_listForRepo = (\<lambda>own rep page.
         if page = 1
         then Inr [\<lparr> is_pull_request = False, is_created_at = 1717200000000,
                     is_user_login = Some ''alice'', is_title = ''Report bug'' \<rparr>]
         else Inr []),
       users_getByUsername = (\<lambda>uname. Inl (Error ''Not Found'')) \<rparr>"

section \<open>Lemmas on the built-ins\<close>

lemma unique_from_set_cong: "set s1 = set s2 \<Longrightarrow> unique_from s1 xs = unique_from s2 xs"
proof (induction xs arbitrary: s1 s2)
  case Nil show ?case by simp
next
  case (Cons x xs)
  have a: "unique_from s1 xs = unique_from s2 xs"
    using Cons.prems by (rule Cons.IH)
  have b: "unique_from (x # s1) xs = unique_from (x # s2) xs"
    by (rule Cons.IH) (simp add: Cons.prems)
  show ?case using Cons.prems a b by simp
qed

lemma unique_from_append_seen:
  "unique_from (a @ seen) xs = filter (\<lambda>x. x \<notin> set a) (unique_from seen xs)"
proof (induction xs arbitrary: seen)
  case Nil show ?case by simp
next
  case (Cons x xs)
  have ih: "unique_from (a @ x # seen) xs = filter (\<lambda>y. y \<notin> set a) (unique_from (x # seen) xs)"
    by (rule Cons.IH)
  have ih0: "unique_from (a @ seen) xs = filter (\<lambda>y. y \<notin> set a) (unique_from seen xs)"
    by (rule Cons.IH)
  have sw: "unique_from (x # a @ seen) xs = unique_from (a @ x # seen) xs"
    by (rule unique_from_set_cong) auto
  show ?case
  proof (cases "x \<in> set seen")
    case True
    then show ?thesis using ih0 by simp
  next
    case False
    note xs = this
    show ?thesis
    proof (cases "x \<in> set a")
      case True
      have "unique_from (a @ seen) xs = unique_from (a @ x # seen) xs"
        by (rule unique_from_set_cong) (use True in auto)
      then show ?thesis using True xs ih by simp
    next
      case False
      then show ?thesis using xs ih sw by simp
    qed
  qed
qed

lemma unique_from_filter: "unique_from seen xs = filter (\<lambda>x. x \<notin> set seen) (unique_from [] xs)"
  using unique_from_append_seen [of seen "[]" xs] by simp

lemma set_unique_from: "set (unique_from seen xs) = set xs - set seen"
  by (induction xs arbitrary: seen) auto

lemma distinct_unique_from: "distinct (unique_from seen xs)"
  by (induction xs arbitrary: seen) (auto simp: set_unique_from)

lemma unique_from_distinct: "distinct xs \<Longrightarrow> set xs \<inter> set seen = {} \<Longrightarrow> unique_from seen xs = xs"
  by (induction xs arbitrary: seen) auto

lemma distinct_array_from_set: "distinct (array_from_set xs)"
  by (simp add: array_from_set_def distinct_unique_from)

lemma keys_update: "map fst (AList.update k v m) = (if k \<in> set (map fst m) then map fst m else map fst m @ [k])"
  by (rule update_keys)

lemma keys_add_existing:
  "map fst (add_existing m cs) = map fst m @ unique_from (map fst m) (map username cs)"
proof (induction cs arbitrary: m)
  case Nil show ?case by simp
next
  case (Cons c cs)
  show ?case
  proof (cases "username c \<in> set (map fst m)")
    case True
    then show ?thesis using Cons.IH [of "AList.update (username c) c m"]
      by (simp add: update_keys)
  next
    case False
    have "unique_from (map fst m @ [username c]) (map username cs) = unique_from (username c # map fst m) (map username cs)"
      by (rule unique_from_set_cong) auto
    then show ?thesis using False Cons.IH [of "AList.update (username c) c m"]
      by (simp add: update_keys)
  qed
qed

lemma keys_merge_new:
  "map fst (merge_new now m cs) = map fst m @ unique_from (map fst m) (map username cs)"
proof (induction cs arbitrary: m)
  case Nil show ?case by simp
next
  case (Cons c cs)
  show ?case
  proof (cases "map_of m (username c)")
    case None
    then have nin: "username c \<notin> set (map fst m)" by (simp add: map_of_eq_None_iff)
    have "unique_from (map fst m @ [username c]) (map username cs) = unique_from (username c # map fst m) (map username cs)"
      by (rule unique_from_set_cong) auto
    then show ?thesis using None nin Cons.IH [of "AList.update (username c) c m"]
      by (simp add: update_keys)
  next
    case (Some e)
    then have "username c \<in> set (map fst m)"
      by (auto dest!: map_of_SomeD intro: rev_image_eqI)
    then show ?thesis using Some Cons.IH [of "AList.update (username c) (merge_record now e c) m"]
      by (simp add: update_keys)
  qed
qed

section \<open>Lemmas on the inter-repository merge\<close>

lemma update_absent: "k \<notin> fst ` set m \<Longrightarrow> AList.update k v m = m @ [(k, v)]"
  by (induction m) auto

lemma keyed_update: "keyed m \<Longrightarrow> username v = k \<Longrightarrow> keyed (AList.update k v m)"
  by (induction m) (auto simp: keyed_def)

lemma username_merge_record [simp]: "username (merge_record now e c) = username e"
  by (simp add: merge_record_def)

lemma keyed_lookup: "keyed m \<Longrightarrow> map_of m k = Some e \<Longrightarrow> username e = k"
  by (induction m) (auto simp: keyed_def split: if_splits)

lemma keyed_values: "keyed m \<Longrightarrow> map username (map snd m) = map fst m"
  by (induction m) (auto simp: keyed_def)

lemma keyed_add_existing: "keyed m \<Longrightarrow> keyed (add_existing m cs)"
  by (induction cs arbitrary: m) (auto simp: keyed_update)

lemma keyed_merge_new: "keyed m \<Longrightarrow> keyed (merge_new now m cs)"
proof (induction cs arbitrary: m)
  case Nil then show ?case by simp
next
  case (Cons c cs)
  show ?case
  proof (cases "map_of m (username c)")
    case None
    then show ?thesis using Cons.prems by (simp add: Cons.IH keyed_update)
  next
    case (Some e)
    have "username e = username c" using Cons.prems Some by (rule keyed_lookup)
    then have "keyed (AList.update (username c) (merge_record now e c) m)"
      using Cons.prems by (simp add: keyed_update)
    then show ?thesis using Some by (simp add: Cons.IH)
  qed
qed

lemma distinct_keys_add_existing: "distinct (map fst m) \<Longrightarrow> distinct (map fst (add_existing m cs))"
  by (induction cs arbitrary: m) (auto simp: distinct_update)

lemma distinct_keys_merge_new: "distinct (map fst m) \<Longrightarrow> distinct (map fst (merge_new now m cs))"
  by (induction cs arbitrary: m) (auto simp: distinct_update split: option.splits)

lemma add_existing_distinct:
  "distinct (map username cs) \<Longrightarrow> set (map username cs) \<inter> fst ` set m = {} \<Longrightarrow>
   add_existing m cs = m @ map (\<lambda>c. (username c, c)) cs"
proof (induction cs arbitrary: m)
  case Nil show ?case by simp
next
  case (Cons c cs)
  have nin: "username c \<notin> fst ` set m" using Cons.prems(2) by auto
  have upd: "AList.update (username c) c m = m @ [(username c, c)]"
    using nin by (rule update_absent)
  have "add_existing (m @ [(username c, c)]) cs = (m @ [(username c, c)]) @ map (\<lambda>c. (username c, c)) cs"
    using Cons.prems by (intro Cons.IH) auto
  then show ?case using upd by simp
qed

lemma update_present_values:
  "keyed m \<Longrightarrow> distinct (map fst m) \<Longrightarrow> map_of m k = Some e \<Longrightarrow>
   map snd (AList.update k v m) = map (\<lambda>x. if username x = k then v else x) (map snd m)"
proof (induction m)
  case Nil then show ?case by simp
next
  case (Cons p m)
  obtain k' v' where p: "p = (k', v')" by (cases p)
  have kp: "username v' = k'" and km: "keyed m" using Cons.prems(1) p by (auto simp: keyed_def)
  show ?case
  proof (cases "k' = k")
    case True
    have "k \<notin> fst ` set m" using Cons.prems(2) p True by auto
    then have "\<forall>x\<in>set (map snd m). username x \<noteq> k"
      using km by (force simp: keyed_def list_all_iff)
    then have "map (\<lambda>x. if username x = k then v else x) (map snd m) = map snd m"
      by (intro map_idI) auto
    then show ?thesis using p True kp by simp
  next
    case False
    then have "map_of m k = Some e" using Cons.prems(3) p by simp
    then have "map snd (AList.update k v m) = map (\<lambda>x. if username x = k then v else x) (map snd m)"
      using km Cons.prems(2) by (intro Cons.IH) auto
    then show ?thesis using p False kp by simp
  qed
qed

lemma keyed_unique_value:
  "keyed m \<Longrightarrow> distinct (map fst m) \<Longrightarrow> map_of m k = Some e \<Longrightarrow> x \<in> set (map snd m) \<Longrightarrow>
   username x = k \<Longrightarrow> x = e"
proof -
  assume a: "keyed m" "distinct (map fst m)" "map_of m k = Some e" "x \<in> set (map snd m)" "username x = k"
  from a(4) obtain k' where "(k', x) \<in> set m" by auto
  moreover from this a(1) have "username x = k'" by (auto simp: keyed_def list_all_iff)
  ultimately have "(k, x) \<in> set m" using a(5) by simp
  then have "map_of m k = Some x" using a(2) by simp
  then show ?thesis using a(3) by simp
qed

lemma merged_with_Nil [simp]: "merged_with now [] e = e"
  by (simp add: merged_with_def)

lemma merged_with_absent:
  "username e \<notin> set (map username cs) \<Longrightarrow> merged_with now cs e = e"
proof -
  assume "username e \<notin> set (map username cs)"
  then have "find (\<lambda>c. username c = username e) cs = None"
    by (induction cs) auto
  then show ?thesis by (simp add: merged_with_def)
qed

lemma merged_with_Cons:
  "merged_with now (c # cs) e =
     (if username c = username e then merge_record now e c else merged_with now cs e)"
  by (simp add: merged_with_def)

lemma map_map_eqI: "(\<And>x. x \<in> set xs \<Longrightarrow> f (g x) = h x) \<Longrightarrow> map f (map g xs) = map h xs"
  by simp

lemma merge_new_values:
  "keyed m \<Longrightarrow> distinct (map fst m) \<Longrightarrow> distinct (map username cs) \<Longrightarrow>
   map snd (merge_new now m cs) =
     map (merged_with now cs) (map snd m) @ filter (\<lambda>c. username c \<notin> fst ` set m) cs"
proof (induction cs arbitrary: m)
  case Nil
  show ?case by (simp add: map_idI)
next
  case (Cons c cs)
  let ?u = "username c"
  have ucs: "?u \<notin> set (map username cs)" and dcs: "distinct (map username cs)"
    using Cons.prems(3) by auto
  show ?case
  proof (cases "map_of m ?u")
    case None
    then have nin: "?u \<notin> fst ` set m" by (simp add: map_of_eq_None_iff)
    let ?m' = "m @ [(?u, c)]"
    have upd: "AList.update ?u c m = ?m'" using nin by (rule update_absent)
    have k': "keyed ?m'" using Cons.prems(1) by (simp add: keyed_def)
    have d': "distinct (map fst ?m')" using Cons.prems(2) nin by auto
    have ih: "map snd (merge_new now ?m' cs) =
        map (merged_with now cs) (map snd ?m') @ filter (\<lambda>c. username c \<notin> fst ` set ?m') cs"
      using k' d' dcs by (rule Cons.IH)
    have f1: "filter (\<lambda>x. username x \<notin> fst ` set ?m') cs = filter (\<lambda>x. username x \<notin> fst ` set m) cs"
    proof (intro filter_cong refl)
      fix x assume "x \<in> set cs"
      then have "username x \<in> set (map username cs)" by simp
      then have "username x \<noteq> ?u" using ucs by (metis (no_types))
      then show "(username x \<notin> fst ` set ?m') = (username x \<notin> fst ` set m)" by auto
    qed
    have m1: "map (merged_with now (c # cs)) (map snd m) = map (merged_with now cs) (map snd m)"
    proof (intro map_cong refl)
      fix x assume "x \<in> set (map snd m)"
      then obtain k where "(k, x) \<in> set m" by auto
      then have "username x \<in> fst ` set m"
        using Cons.prems(1) by (force simp: keyed_def list_all_iff)
      then have "username x \<noteq> ?u" using nin by (metis (no_types))
      then show "merged_with now (c # cs) x = merged_with now cs x"
        by (simp add: merged_with_Cons)
    qed
    have c1: "merged_with now cs c = c" using ucs by (rule merged_with_absent)
    show ?thesis using None upd ih f1 m1 c1 nin by simp
  next
    case (Some e)
    let ?v = "merge_record now e c"
    let ?m' = "AList.update ?u ?v m"
    have ue: "username e = ?u" using Cons.prems(1) Some by (rule keyed_lookup)
    have inn: "?u \<in> fst ` set m" using Some by (auto dest!: map_of_SomeD intro: rev_image_eqI)
    have k': "keyed ?m'" using Cons.prems(1) ue by (simp add: keyed_update)
    have d': "distinct (map fst ?m')" using Cons.prems(2) by (simp add: distinct_update)
    have keys: "fst ` set ?m' = fst ` set m" using inn by (auto simp: dom_update)
    have ih: "map snd (merge_new now ?m' cs) =
        map (merged_with now cs) (map snd ?m') @ filter (\<lambda>c. username c \<notin> fst ` set ?m') cs"
      using k' d' dcs by (rule Cons.IH)
    have vals: "map snd ?m' = map (\<lambda>x. if username x = ?u then ?v else x) (map snd m)"
      using Cons.prems(1,2) Some by (rule update_present_values)
    have v1: "merged_with now cs ?v = ?v"
      using ucs ue by (intro merged_with_absent) simp
    have m1: "map (merged_with now cs) (map snd ?m') = map (merged_with now (c # cs)) (map snd m)"
      unfolding vals
    proof (rule map_map_eqI)
      fix x assume xin: "x \<in> set (map snd m)"
      show "merged_with now cs (if username x = ?u then ?v else x) = merged_with now (c # cs) x"
      proof (cases "username x = ?u")
        case True
        then have "x = e" using Cons.prems(1,2) Some xin keyed_unique_value by blast
        then show ?thesis using True v1 by (simp add: merged_with_Cons)
      next
        case False
        then show ?thesis by (simp add: merged_with_Cons)
      qed
    qed
    show ?thesis using Some ih m1 keys inn by simp
  qed
qed

lemma mergeContributors_values:
  assumes "distinct (map username ex)" and "distinct (map username nw)"
  shows "mergeContributors now ex nw =
           map (merged_with now nw) ex @ filter (\<lambda>c. username c \<notin> set (map username ex)) nw"
proof -
  have ae: "add_existing [] ex = map (\<lambda>c. (username c, c)) ex"
    using add_existing_distinct [of ex "[]"] assms(1) by simp
  have k: "keyed (map (\<lambda>c. (username c, c)) ex)"
    by (simp add: keyed_def list_all_iff)
  have d: "distinct (map fst (map (\<lambda>c. (username c, c)) ex))"
    using assms(1) by (simp add: comp_def)
  have s: "map snd (map (\<lambda>c. (username c, c)) ex) = ex" by (simp add: comp_def)
  have f: "fst ` set (map (\<lambda>c. (username c, c)) ex) = set (map username ex)" by force
  show ?thesis
    unfolding mergeContributors_def map_values_def ae
    using merge_new_values [OF k d assms(2), of now] by (simp only: s f)
qed

lemma unique_from_append:
  "unique_from seen (a @ b) = unique_from seen a @ unique_from (a @ seen) b"
proof (induction a arbitrary: seen)
  case Nil show ?case by simp
next
  case (Cons x a)
  have ih0: "unique_from seen (a @ b) = unique_from seen a @ unique_from (a @ seen) b"
    by (rule Cons.IH)
  have ih1: "unique_from (x # seen) (a @ b) = unique_from (x # seen) a @ unique_from (a @ x # seen) b"
    by (rule Cons.IH)
  have sw: "unique_from (a @ x # seen) b = unique_from (x # a @ seen) b"
    by (rule unique_from_set_cong) auto
  show ?case
  proof (cases "x \<in> set seen")
    case True
    have "unique_from (x # a @ seen) b = unique_from (a @ seen) b"
      by (rule unique_from_set_cong) (use True in auto)
    then show ?thesis using True ih0 by simp
  next
    case False
    then show ?thesis using ih1 sw by simp
  qed
qed

lemma mergeContributors_usernames:
  "map username (mergeContributors now ex nw) = array_from_set (map username ex @ map username nw)"
proof -
  let ?m = "merge_new now (add_existing [] ex) nw"
  have k: "keyed ?m" by (intro keyed_merge_new keyed_add_existing) (simp add: keyed_def)
  have "map username (map snd ?m) = map fst ?m" using k by (rule keyed_values)
  also have "\<dots> = unique_from [] (map username ex)
                  @ unique_from (unique_from [] (map username ex)) (map username nw)"
    by (simp add: keys_merge_new keys_add_existing)
  also have "\<dots> = unique_from [] (map username ex @ map username nw)"
  proof -
    have "unique_from (unique_from [] (map username ex)) (map username nw)
          = unique_from (map username ex @ []) (map username nw)"
      by (rule unique_from_set_cong) (simp add: set_unique_from)
    then show ?thesis by (simp add: unique_from_append)
  qed
  finally show ?thesis by (simp add: mergeContributors_def map_values_def array_from_set_def)
qed

section \<open>Properties of the inter-repository merge\<close>


lemma take5_length: "length (take 5 xs) \<le> 5"
  by simp



text \<open>
  Claim C10. The merge keeps the order: the usernames of the result are those of the
  existing set (one record per username), in their order, followed by the usernames of
  the new list that the existing set does not have, in the order of their first
  appearance. When the new list has one record per username as well, the result is each
  existing record, updated by the new record of its username if there is one, followed
  by the new records of the other usernames themselves.
\<close>

theorem merge_preserves_order:
  assumes "distinct (map username existingContributors)"
  shows "map username (mergeContributors now existingContributors newContributors)
           = map username existingContributors
             @ filter (\<lambda>u. u \<notin> set (map username existingContributors))
                 (array_from_set (map username newContributors))
         \<and> (distinct (map username newContributors) \<longrightarrow>
              mergeContributors now existingContributors newContributors
                = map (merged_with now newContributors) existingContributors
                  @ filter (\<lambda>c. username c \<notin> set (map username existingContributors))
                      newContributors)"
proof (intro conjI impI)
  let ?ex = "map username existingContributors" and ?nw = "map username newContributors"
  have "array_from_set (?ex @ ?nw) = unique_from [] ?ex @ unique_from (?ex @ []) ?nw"
    by (simp add: array_from_set_def unique_from_append)
  also have "unique_from [] ?ex = ?ex" using assms by (simp add: unique_from_distinct)
  also have "unique_from (?ex @ []) ?nw = filter (\<lambda>u. u \<notin> set ?ex) (array_from_set ?nw)"
    using unique_from_filter [of ?ex ?nw] by (simp add: array_from_set_def)
  finally show "map username (mergeContributors now existingContributors newContributors)
      = ?ex @ filter (\<lambda>u. u \<notin> set ?ex) (array_from_set ?nw)"
    by (simp add: mergeContributors_usernames)
next
  assume "distinct (map username newContributors)"
  with assms show "mergeContributors now existingContributors newContributors
      = map (merged_with now newContributors) existingContributors
        @ filter (\<lambda>c. username c \<notin> set (map username existingContributors)) newContributors"
    by (rule mergeContributors_values)
qed


theorem merge_preserves_order_witness:
  "distinct (map username example_existing)
   \<and> distinct (map username example_new)
   \<and> map username (mergeContributors 7 example_existing example_new)
       = [''alice'', ''bob'', ''carol'']
   \<and> mergeContributors 7 example_existing example_new
       = [merge_record 7 (example_existing ! 0) (example_new ! 1),
          example_existing ! 1, example_new ! 0]"
proof -
  have d: "distinct (map username example_existing)"
    by (simp add: example_existing_def sample_record_def)
  have d': "distinct (map username example_new)"
    by (simp add: example_new_def sample_record_def)
  show ?thesis
    using d d' merge_preserves_order [OF d, of 7 example_new]
    by (simp add: example_existing_def example_new_def sample_record_def merged_with_def
        array_from_set_def)
qed

section \<open>Invariants of the collection passes and of the merge\<close>

lemma values_update:
  "list_all P (map snd m) \<Longrightarrow> P v \<Longrightarrow> list_all P (map snd (AList.update k v m))"
  by (induction m) auto

lemma values_lookup: "list_all P (map snd m) \<Longrightarrow> map_of m k = Some e \<Longrightarrow> P e"
  by (induction m) (auto split: if_splits)

lemma committer_step_inv:
  assumes "list_all P (map snd m)"
    and "\<And>u prof. P (new_record now cfg u prof (c_contributions c) 0 0 (c_contributions c) [] None)"
    and "\<And>e. P e \<Longrightarrow> P (e\<lparr>commits := commits e + c_contributions c,
                            totalContributions := totalContributions e + c_contributions c\<rparr>)"
  shows "list_all P (map snd (committer_step octokit now cfg options c m))"
  using assms
  by (auto simp: committer_step_def Let_def split: option.splits
      intro!: values_update dest: values_lookup)

lemma committer_loop_inv:
  assumes "list_all P (map snd m)"
    and "\<And>c u prof. c \<in> set cs \<Longrightarrow>
           P (new_record now cfg u prof (c_contributions c) 0 0 (c_contributions c) [] None)"
    and "\<And>c e. c \<in> set cs \<Longrightarrow> P e \<Longrightarrow>
           P (e\<lparr>commits := commits e + c_contributions c,
                totalContributions := totalContributions e + c_contributions c\<rparr>)"
  shows "list_all P (map snd (committer_loop octokit now cfg options cs m))"
  using assms
proof (induction cs arbitrary: m)
  case Nil then show ?case by simp
next
  case (Cons c cs)
  have "list_all P (map snd (committer_step octokit now cfg options c m))"
    using Cons.prems(1)
    by (rule committer_step_inv [where P = P]) (rule Cons.prems(2), simp, rule Cons.prems(3), simp)
  then show ?case using Cons.prems(2,3) by (simp add: Cons.IH)
qed

lemma pr_step_inv:
  assumes "list_all P (map snd m)"
    and "\<And>u prof. P (new_record now cfg u prof 1 1 0 0 [pr_title pr] (Some (pr_created_at pr)))"
    and "\<And>e. P e \<Longrightarrow> P (pr_update e pr)"
  shows "list_all P (map snd (pr_step octokit now cfg options pr m))"
  using assms
  by (auto simp: pr_step_def Let_def split: option.splits
      intro!: values_update dest: values_lookup)

lemma pr_loop_inv:
  assumes "list_all P (map snd m)"
    and "\<And>(pr :: PullEntry) u prof.
           P (new_record now cfg u prof 1 1 0 0 [pr_title pr] (Some (pr_created_at pr)))"
    and "\<And>(pr :: PullEntry) e. P e \<Longrightarrow> P (pr_update e pr)"
  shows "list_all P (map snd (fst (pr_loop octokit now cfg options cutoff prs m)))"
  using assms(1)
proof (induction prs arbitrary: m)
  case Nil then show ?case by simp
next
  case (Cons pr prs)
  have "list_all P (map snd (pr_step octokit now cfg options pr m))"
    using Cons.prems by (rule pr_step_inv [where P = P]) (rule assms(2), rule assms(3))
  then show ?case using Cons.prems by (simp add: Cons.IH)
qed

lemma pr_pages_inv:
  assumes "list_all P (map snd m)"
    and "\<And>now cfg (pr :: PullEntry) u prof.
           P (new_record now cfg u prof 1 1 0 0 [pr_title pr] (Some (pr_created_at pr)))"
    and "\<And>(pr :: PullEntry) e. P e \<Longrightarrow> P (pr_update e pr)"
  shows "list_all P (map snd (pr_pages octokit now cfg options cutoff page m))"
  using assms(1)
proof (induction octokit now cfg options cutoff page m rule: pr_pages.induct)
  case (1 octokit now cfg options cutoff page m)
  show ?case
  proof (cases "page \<le> 3")
    case False
    then show ?thesis using "1.prems" by (simp add: pr_pages.simps)
  next
    case True
    show ?thesis
    proof (cases "pulls_list octokit (owner cfg) (repo cfg) page")
      case (Inl err)
      then show ?thesis using True "1.prems" by (simp add: pr_pages.simps)
    next
      case (Inr data)
      show ?thesis
      proof (cases "length data = 0")
        case True
        then show ?thesis using \<open>page \<le> 3\<close> Inr "1.prems" by (simp add: pr_pages.simps)
      next
        case False
        obtain m' hasMore where l: "pr_loop octokit now cfg options cutoff data m = (m', hasMore)"
          by (cases "pr_loop octokit now cfg options cutoff data m")
        have "list_all P (map snd (fst (pr_loop octokit now cfg options cutoff data m)))"
          using "1.prems" by (rule pr_loop_inv [where P = P]) (rule assms(2), rule assms(3))
        then have inv': "list_all P (map snd m')" using l by simp
        show ?thesis
        proof (cases hasMore)
          case True
          have "list_all P (map snd (pr_pages octokit now cfg options cutoff (page + 1) m'))"
            using "1.IH" [OF \<open>page \<le> 3\<close> Inr False l [symmetric] True inv'] .
          then show ?thesis
            using \<open>page \<le> 3\<close> Inr False l True
            by (simp add: pr_pages.simps [of octokit now cfg options cutoff page m])
        next
          case hm: False
          show ?thesis
            using \<open>page \<le> 3\<close> Inr False l hm inv'
            by (simp add: pr_pages.simps [of octokit now cfg options cutoff page m])
        qed
      qed
    qed
  qed
qed

lemma issue_step_inv:
  assumes "list_all P (map snd m)"
    and "\<And>u prof. P (new_record now cfg u prof 1 0 1 0 [is_title issue] (Some (is_created_at issue)))"
    and "\<And>e. P e \<Longrightarrow> P (issue_update e issue)"
  shows "list_all P (map snd (issue_step octokit now cfg options issue m))"
  using assms
  by (auto simp: issue_step_def Let_def split: option.splits
      intro!: values_update dest: values_lookup)

lemma issue_loop_inv:
  assumes "list_all P (map snd m)"
    and "\<And>(issue :: IssueEntry) u prof.
           P (new_record now cfg u prof 1 0 1 0 [is_title issue] (Some (is_created_at issue)))"
    and "\<And>(issue :: IssueEntry) e. P e \<Longrightarrow> P (issue_update e issue)"
  shows "list_all P (map snd (fst (issue_loop octokit now cfg options cutoff iss m)))"
  using assms(1)
proof (induction iss arbitrary: m)
  case Nil then show ?case by simp
next
  case (Cons issue iss)
  have "list_all P (map snd (issue_step octokit now cfg options issue m))"
    using Cons.prems by (rule issue_step_inv [where P = P]) (rule assms(2), rule assms(3))
  then show ?case using Cons.prems by (simp add: Cons.IH)
qed

lemma issue_pages_inv:
  assumes "list_all P (map snd m)"
    and "\<And>now cfg (issue :: IssueEntry) u prof.
           P (new_record now cfg u prof 1 0 1 0 [is_title issue] (Some (is_created_at issue)))"
    and "\<And>(issue :: IssueEntry) e. P e \<Longrightarrow> P (issue_update e issue)"
  shows "list_all P (map snd (issue_pages octokit now cfg options cutoff page m))"
  using assms(1)
proof (induction octokit now cfg options cutoff page m rule: issue_pages.induct)
  case (1 octokit now cfg options cutoff page m)
  show ?case
  proof (cases "page \<le> 3")
    case False
    then show ?thesis using "1.prems" by (simp add: issue_pages.simps)
  next
    case True
    show ?thesis
    proof (cases "issues_listForRepo octokit (owner cfg) (repo cfg) page")
      case (Inl err)
      then show ?thesis using True "1.prems" by (simp add: issue_pages.simps)
    next
      case (Inr data)
      show ?thesis
      proof (cases "length data = 0")
        case True
        then show ?thesis using \<open>page \<le> 3\<close> Inr "1.prems" by (simp add: issue_pages.simps)
      next
        case False
        obtain m' hasMore where l: "issue_loop octokit now cfg options cutoff data m = (m', hasMore)"
          by (cases "issue_loop octokit now cfg options cutoff data m")
        have "list_all P (map snd (fst (issue_loop octokit now cfg options cutoff data m)))"
          using "1.prems" by (rule issue_loop_inv [where P = P]) (rule assms(2), rule assms(3))
        then have inv': "list_all P (map snd m')" using l by simp
        show ?thesis
        proof (cases hasMore)
          case True
          have "list_all P (map snd (issue_pages octokit now cfg options cutoff (page + 1) m'))"
            using "1.IH" [OF \<open>page \<le> 3\<close> Inr False l [symmetric] True inv'] .
          then show ?thesis
            using \<open>page \<le> 3\<close> Inr False l True
            by (simp add: issue_pages.simps [of octokit now cfg options cutoff page m])
        next
          case hm: False
          show ?thesis
            using \<open>page \<le> 3\<close> Inr False l hm inv'
            by (simp add: issue_pages.simps [of octokit now cfg options cutoff page m])
        qed
      qed
    qed
  qed
qed

text \<open>
  A property \<open>P\<close> of records that holds of every record as created by a pass and is kept by
  every update of a pass holds of every record that \<open>fetchContributors\<close> returns. \<open>Q\<close> is
  what is known of the entries of the contributor statistics.
\<close>

lemma fetchContributors_inv:
  assumes q: "\<And>entries c. repos_listContributors octokit (owner cfg) (repo cfg) = Inr entries
                \<Longrightarrow> c \<in> set entries \<Longrightarrow> Q c"
    and c_new: "\<And>now cfg (c :: ContributorEntry) u prof. Q c \<Longrightarrow>
           P (new_record now cfg u prof (c_contributions c) 0 0 (c_contributions c) [] None)"
    and c_upd: "\<And>(c :: ContributorEntry) e. Q c \<Longrightarrow> P e \<Longrightarrow>
           P (e\<lparr>commits := commits e + c_contributions c,
                totalContributions := totalContributions e + c_contributions c\<rparr>)"
    and p_new: "\<And>now cfg (pr :: PullEntry) u prof.
           P (new_record now cfg u prof 1 1 0 0 [pr_title pr] (Some (pr_created_at pr)))"
    and p_upd: "\<And>(pr :: PullEntry) e. P e \<Longrightarrow> P (pr_update e pr)"
    and i_new: "\<And>now cfg (issue :: IssueEntry) u prof.
           P (new_record now cfg u prof 1 0 1 0 [is_title issue] (Some (is_created_at issue)))"
    and i_upd: "\<And>(issue :: IssueEntry) e. P e \<Longrightarrow> P (issue_update e issue)"
  shows "list_all P (fetchContributors octokit now cfg options)"
proof -
  let ?m1 = "if includeCommitters options \<noteq> Some False
             then fetchCommitters octokit now cfg [] options else []"
  let ?m2 = "if includePRAuthors options \<noteq> Some False
             then fetchPRAuthors octokit now cfg ?m1 options else ?m1"
  let ?m3 = "if includeIssueCreators options \<noteq> Some False
             then fetchIssueCreators octokit now cfg ?m2 options else ?m2"
  have c: "list_all P (map snd (fetchCommitters octokit now cfg [] options))"
  proof (cases "repos_listContributors octokit (owner cfg) (repo cfg)")
    case (Inl err)
    then show ?thesis by (simp add: fetchCommitters_def)
  next
    case (Inr entries)
    have "list_all P (map snd (committer_loop octokit now cfg options entries []))"
    proof (rule committer_loop_inv [where P = P])
      show "list_all P (map snd [])" by simp
    next
      fix c u prof assume "c \<in> set entries"
      then have "Q c" using Inr q by blast
      then show "P (new_record now cfg u prof (c_contributions c) 0 0 (c_contributions c) [] None)"
        by (rule c_new)
    next
      fix c e assume "c \<in> set entries" and pe: "P e"
      then have "Q c" using Inr q by blast
      then show "P (e\<lparr>commits := commits e + c_contributions c,
                totalContributions := totalContributions e + c_contributions c\<rparr>)"
        using pe by (rule c_upd)
    qed
    then show ?thesis using Inr by (simp add: fetchCommitters_def)
  qed
  have m1: "list_all P (map snd ?m1)" using c by simp
  have "list_all P (map snd (fetchPRAuthors octokit now cfg ?m1 options))"
    unfolding fetchPRAuthors_def
    using m1 by (rule pr_pages_inv [where P = P]) (rule p_new, rule p_upd)
  then have m2: "list_all P (map snd ?m2)" using m1 by presburger
  have "list_all P (map snd (fetchIssueCreators octokit now cfg ?m2 options))"
    unfolding fetchIssueCreators_def
    using m2 by (rule issue_pages_inv [where P = P]) (rule i_new, rule i_upd)
  then have m3: "list_all P (map snd ?m3)" using m2 by presburger
  show ?thesis using m3 by (simp add: fetchContributors_def map_values_def Let_def)
qed

lemma add_existing_inv:
  "list_all P (map snd m) \<Longrightarrow> list_all P cs \<Longrightarrow> list_all P (map snd (add_existing m cs))"
  by (induction cs arbitrary: m) (auto intro: values_update)

lemma merge_new_inv:
  assumes "list_all P (map snd m)" and "list_all P cs"
    and "\<And>e c. P e \<Longrightarrow> P c \<Longrightarrow> P (merge_record now e c)"
  shows "list_all P (map snd (merge_new now m cs))"
  using assms(1,2)
proof (induction cs arbitrary: m)
  case Nil then show ?case by simp
next
  case (Cons c cs)
  have pc: "P c" and pcs: "list_all P cs" using Cons.prems(2) by auto
  show ?case
  proof (cases "map_of m (username c)")
    case None
    have "list_all P (map snd (AList.update (username c) c m))"
      using Cons.prems(1) pc by (rule values_update)
    then show ?thesis using None pcs by (simp add: Cons.IH)
  next
    case (Some e)
    have "P e" using Cons.prems(1) Some by (rule values_lookup)
    then have "P (merge_record now e c)" using pc by (rule assms(3))
    with Cons.prems(1) have "list_all P (map snd (AList.update (username c) (merge_record now e c) m))"
      by (rule values_update)
    then show ?thesis using Some pcs by (simp add: Cons.IH)
  qed
qed

lemma mergeContributors_inv:
  assumes "list_all P ex" and "list_all P nw"
    and "\<And>e c. P e \<Longrightarrow> P c \<Longrightarrow> P (merge_record now e c)"
  shows "list_all P (mergeContributors now ex nw)"
proof -
  have "list_all P (map snd (add_existing [] ex))"
    using assms(1) by (intro add_existing_inv) simp_all
  then have "list_all P (map snd (merge_new now (add_existing [] ex) nw))"
    using assms(2,3) by (rule merge_new_inv)
  then show ?thesis by (simp add: mergeContributors_def map_values_def)
qed

lemma consistent_new_record:
  "tot = cms + prs + iss \<Longrightarrow>
   counters_consistent (new_record now cfg u prof tot prs iss cms titles created)"
  by (simp add: counters_consistent_def new_record_def)

lemma consistent_merge_record:
  "counters_consistent e \<Longrightarrow> counters_consistent c \<Longrightarrow> counters_consistent (merge_record now e c)"
  by (simp add: counters_consistent_def merge_record_def)

lemma consistent_fetchContributors:
  "list_all counters_consistent (fetchContributors octokit now cfg options)"
  by (rule fetchContributors_inv [where Q = "\<lambda>c. True" and P = counters_consistent])
     (simp_all add: consistent_new_record,
      simp_all add: counters_consistent_def pr_update_def issue_update_def)

lemma list_all_filter: "list_all P xs \<Longrightarrow> list_all P (filter R xs)"
  by (induction xs) auto

lemma consistent_process_repos:
  "list_all counters_consistent acc \<Longrightarrow>
   list_all counters_consistent (process_repos octokit now options acc repos)"
proof (induction repos arbitrary: acc)
  case Nil then show ?case by simp
next
  case (Cons r repos)
  have "list_all counters_consistent (process_repo octokit now options acc r)"
  proof (cases "parseRepo r")
    case (Inl err) then show ?thesis using Cons.prems by (simp add: process_repo_def)
  next
    case (Inr cfg)
    have "list_all counters_consistent
            (filter_by_minimum options (fetchContributors octokit now cfg options))"
      unfolding filter_by_minimum_def
      by (rule list_all_filter) (rule consistent_fetchContributors)
    with Cons.prems have "list_all counters_consistent
        (mergeContributors now acc
           (filter_by_minimum options (fetchContributors octokit now cfg options)))"
      by (rule mergeContributors_inv) (rule consistent_merge_record)
    then show ?thesis using Inr by (simp add: process_repo_def Let_def)
  qed
  then show ?case by (simp add: Cons.IH)
qed

section \<open>The invariant of the counters\<close>

lemma consistent_steps:
  assumes "list_all counters_consistent (map_values m)"
  shows "list_all counters_consistent (map_values (committer_step octokit now cfg options c m))"
    and "list_all counters_consistent (map_values (pr_step octokit now cfg options pr m))"
    and "list_all counters_consistent (map_values (issue_step octokit now cfg options issue m))"
proof -
  have m: "list_all counters_consistent (map snd m)" using assms by (simp add: map_values_def)
  have "list_all counters_consistent (map snd (committer_step octokit now cfg options c m))"
    using m by (rule committer_step_inv [where P = counters_consistent])
      (simp_all add: consistent_new_record, simp add: counters_consistent_def)
  then show "list_all counters_consistent (map_values (committer_step octokit now cfg options c m))"
    by (simp add: map_values_def)
  have "list_all counters_consistent (map snd (pr_step octokit now cfg options pr m))"
    using m by (rule pr_step_inv [where P = counters_consistent])
      (simp_all add: consistent_new_record, simp add: counters_consistent_def pr_update_def)
  then show "list_all counters_consistent (map_values (pr_step octokit now cfg options pr m))"
    by (simp add: map_values_def)
  have "list_all counters_consistent (map snd (issue_step octokit now cfg options issue m))"
    using m by (rule issue_step_inv [where P = counters_consistent])
      (simp_all add: consistent_new_record, simp add: counters_consistent_def issue_update_def)
  then show "list_all counters_consistent (map_values (issue_step octokit now cfg options issue m))"
    by (simp add: map_values_def)
qed

text \<open>
  Claim C2. The total of a record is the sum of its commits, pull requests and issues
  after every update step of either merge level: each step of the three passes over a
  map whose records satisfy the invariant gives a map whose records satisfy it, the
  update of the inter-repository merge keeps it, and therefore so do all the records that
  \<open>fetchContributors\<close> returns (whatever the API answers), the result of
  \<open>mergeContributors\<close> on lists that satisfy it, and the list that \<open>main\<close> exports.
\<close>

theorem total_is_sum_of_counters:
  "(list_all counters_consistent (map_values m) \<longrightarrow>
      list_all counters_consistent (map_values (committer_step octokit now cfg options c m))
      \<and> list_all counters_consistent (map_values (pr_step octokit now cfg options pr m))
      \<and> list_all counters_consistent (map_values (issue_step octokit now cfg options issue m)))
   \<and> (counters_consistent e \<and> counters_consistent c' \<longrightarrow>
        counters_consistent (merge_record now e c'))
   \<and> list_all counters_consistent (fetchContributors octokit now cfg options)
   \<and> (list_all counters_consistent existingContributors
        \<and> list_all counters_consistent newContributors \<longrightarrow>
        list_all counters_consistent (mergeContributors now existingContributors newContributors))
   \<and> list_all counters_consistent (main_contributors octokit now options repos)"
proof (intro conjI impI)
  assume "list_all counters_consistent (map_values m)"
  then show "list_all counters_consistent (map_values (committer_step octokit now cfg options c m))"
    and "list_all counters_consistent (map_values (pr_step octokit now cfg options pr m))"
    and "list_all counters_consistent (map_values (issue_step octokit now cfg options issue m))"
    by (rule consistent_steps)+
next
  assume "counters_consistent e \<and> counters_consistent c'"
  then show "counters_consistent (merge_record now e c')"
    by (simp add: consistent_merge_record)
next
  show "list_all counters_consistent (fetchContributors octokit now cfg options)"
    by (rule consistent_fetchContributors)
next
  assume "list_all counters_consistent existingContributors
        \<and> list_all counters_consistent newContributors"
  then show "list_all counters_consistent (mergeContributors now existingContributors newContributors)"
    by (intro mergeContributors_inv consistent_merge_record) simp_all
next
  have "list_all counters_consistent (process_repos octokit now options [] repos)"
    by (rule consistent_process_repos) simp
  then show "list_all counters_consistent (main_contributors octokit now options repos)"
    by (simp add: main_contributors_def sort_by_total_def list_all_iff)
qed

theorem total_is_sum_of_counters_witness:
  "list_all counters_consistent (map_values [(''alice'', example_existing ! 0)])
   \<and> list_all counters_consistent
        (map_values (pr_step example_octokit 7 example_config (example_options None)
           \<lparr> pr_created_at = 1704067200000, pr_user_login = Some ''alice'', pr_title = ''Fix typo'' \<rparr>
           [(''alice'', example_existing ! 0)]))
   \<and> map totalContributions
        (map_values (pr_step example_octokit 7 example_config (example_options None)
           \<lparr> pr_created_at = 1704067200000, pr_user_login = Some ''alice'', pr_title = ''Fix typo'' \<rparr>
           [(''alice'', example_existing ! 0)])) = [5]
   \<and> list_all counters_consistent example_existing
   \<and> list_all counters_consistent example_new
   \<and> list_all counters_consistent (mergeContributors 7 example_existing example_new)
   \<and> map totalContributions (mergeContributors 7 example_existing example_new) = [7, 1, 1]"
proof -
  have a: "list_all counters_consistent (map_values [(''alice'', example_existing ! 0)])"
    by (simp add: map_values_def counters_consistent_def example_existing_def sample_record_def)
  have b: "list_all counters_consistent example_existing"
    by (simp add: counters_consistent_def example_existing_def sample_record_def)
  have c: "list_all counters_consistent example_new"
    by (simp add: counters_consistent_def example_new_def sample_record_def)
  have d: "map totalContributions
        (map_values (pr_step example_octokit 7 example_config (example_options None)
           \<lparr> pr_created_at = 1704067200000, pr_user_login = Some ''alice'', pr_title = ''Fix typo'' \<rparr>
           [(''alice'', example_existing ! 0)])) = [5]"
    by code_simp
  have e: "map totalContributions (mergeContributors 7 example_existing example_new) = [7, 1, 1]"
    by code_simp
  show ?thesis
    using a b c d e
      total_is_sum_of_counters [where m = "[(''alice'', example_existing ! 0)]"
        and octokit = example_octokit and now = 7 and cfg = example_config
        and options = "example_options None"
        and pr = "\<lparr> pr_created_at = 1704067200000, pr_user_login = Some ''alice'',
                    pr_title = ''Fix typo'' \<rparr>"
        and existingContributors = example_existing and newContributors = example_new]
    by simp
qed

section \<open>The minimum-contributions filter\<close>

lemma positive_fetchContributors:
  assumes "\<And>entries c. repos_listContributors octokit (owner cfg) (repo cfg) = Inr entries
             \<Longrightarrow> c \<in> set entries \<Longrightarrow> 1 \<le> c_contributions c"
  shows "list_all (\<lambda>c. 1 \<le> totalContributions c) (fetchContributors octokit now cfg options)"
  by (rule fetchContributors_inv
        [where Q = "\<lambda>c. 1 \<le> c_contributions c" and P = "\<lambda>c. 1 \<le> totalContributions c"])
     (use assms in \<open>auto simp: new_record_def pr_update_def issue_update_def\<close>)

text \<open>
  Claim C6. When every entry of the contributor statistics reports at least one commit,
  every record that \<open>fetchContributors\<close> creates has a total of at least 1, and the filter
  with a minimum of 0 or of 1 returns all of them (a minimum of 0 is read as 1). The filter
  with a minimum above the total of every record of a list returns the empty list.
\<close>

theorem filter_minimum_zero_one_or_above:
  assumes "\<And>entries c. repos_listContributors octokit (owner cfg) (repo cfg) = Inr entries
             \<Longrightarrow> c \<in> set entries \<Longrightarrow> 1 \<le> c_contributions c"
  shows "(minContributions options = Some 0 \<or> minContributions options = Some 1 \<longrightarrow>
            filter_by_minimum options (fetchContributors octokit now cfg options)
              = fetchContributors octokit now cfg options)
         \<and> (minContributions options = Some t \<and> (\<forall>c\<in>set cs. totalContributions c < t) \<longrightarrow>
              filter_by_minimum options cs = [])"
proof (intro conjI impI)
  assume m: "minContributions options = Some 0 \<or> minContributions options = Some 1"
  then have t: "min_threshold options = 1" by (auto simp: min_threshold_def)
  have "list_all (\<lambda>c. 1 \<le> totalContributions c) (fetchContributors octokit now cfg options)"
    using assms by (rule positive_fetchContributors)
  then show "filter_by_minimum options (fetchContributors octokit now cfg options)
              = fetchContributors octokit now cfg options"
    by (simp add: filter_by_minimum_def t list_all_iff)
next
  assume a: "minContributions options = Some t \<and> (\<forall>c\<in>set cs. totalContributions c < t)"
  then have "t \<le> min_threshold options" by (auto simp: min_threshold_def)
  then have "\<forall>c\<in>set cs. \<not> min_threshold options \<le> totalContributions c"
    using a by fastforce
  then show "filter_by_minimum options cs = []"
    by (simp add: filter_by_minimum_def filter_empty_conv)
qed

theorem filter_minimum_zero_one_or_above_witness:
  "map (map c_contributions)
       [projr (repos_listContributors example_octokit (owner example_config) (repo example_config))]
     = [[3, 40]]
   \<and> map totalContributions
         (fetchContributors example_octokit 0 example_config (example_options (Some 0))) = [5]
   \<and> filter_by_minimum (example_options (Some 0))
         (fetchContributors example_octokit 0 example_config (example_options (Some 0)))
       = fetchContributors example_octokit 0 example_config (example_options (Some 0))
   \<and> map totalContributions example_existing = [4, 1]
   \<and> filter_by_minimum (example_options (Some 9)) example_existing = []"
proof -
  have h: "\<And>entries c. repos_listContributors example_octokit (owner example_config)
             (repo example_config) = Inr entries \<Longrightarrow> c \<in> set entries \<Longrightarrow> 1 \<le> c_contributions c"
    by (auto simp: example_octokit_def)
  have e: "map (map c_contributions)
       [projr (repos_listContributors example_octokit (owner example_config) (repo example_config))]
     = [[3, 40]]"
    by (simp add: example_octokit_def)
  have v: "map totalContributions
         (fetchContributors example_octokit 0 example_config (example_options (Some 0))) = [5]"
    by code_simp
  have s: "\<forall>c\<in>set example_existing. totalContributions c < 9"
    by (simp add: example_existing_def sample_record_def)
  have s': "map totalContributions example_existing = [4, 1]"
    by (simp add: example_existing_def sample_record_def)
  have o0: "minContributions (example_options (Some 0)) = Some 0"
    and o9: "minContributions (example_options (Some 9)) = Some 9"
    by (simp_all add: example_options_def)
  have a: "filter_by_minimum (example_options (Some 0))
         (fetchContributors example_octokit 0 example_config (example_options (Some 0)))
       = fetchContributors example_octokit 0 example_config (example_options (Some 0))"
    using filter_minimum_zero_one_or_above [where octokit = example_octokit
        and cfg = example_config and options = "example_options (Some 0)" and now = 0, OF h] o0
    by simp
  have b: "filter_by_minimum (example_options (Some 9)) example_existing = []"
    using filter_minimum_zero_one_or_above [where octokit = example_octokit
        and cfg = example_config and options = "example_options (Some 9)" and t = 9
        and cs = example_existing, OF h] o9 s
    by simp
  show ?thesis using e v a b s' by blast
qed

section \<open>Where the filter is applied\<close>

lemma set_usernames_merge:
  "set (map username (mergeContributors now ex nw)) = set (map username ex) \<union> set (map username nw)"
  by (simp add: mergeContributors_usernames array_from_set_def set_unique_from)

lemma usernames_process_repos:
  "set (map username (process_repos octokit now options acc repos))
     = set (map username acc)
       \<union> {u. \<exists>r\<in>set repos. \<exists>cfg c. parseRepo r = Inr cfg
              \<and> c \<in> set (fetchContributors octokit now cfg options)
              \<and> username c = u \<and> min_threshold options \<le> totalContributions c}"
proof (induction repos arbitrary: acc)
  case Nil show ?case by simp
next
  case (Cons r repos)
  let ?here = "{u. \<exists>cfg c. parseRepo r = Inr cfg
              \<and> c \<in> set (fetchContributors octokit now cfg options)
              \<and> username c = u \<and> min_threshold options \<le> totalContributions c}"
  have step: "set (map username (process_repo octokit now options acc r))
                = set (map username acc) \<union> ?here"
  proof (cases "parseRepo r")
    case (Inl err) then show ?thesis by (simp add: process_repo_def)
  next
    case (Inr cfg)
    have "set (map username (filter_by_minimum options (fetchContributors octokit now cfg options)))
            = ?here"
      using Inr by (auto simp: filter_by_minimum_def)
    then show ?thesis using Inr
      by (simp add: process_repo_def Let_def set_usernames_merge del: set_map)
  qed
  have "set (map username (process_repos octokit now options acc (r # repos)))
          = (set (map username acc) \<union> ?here)
            \<union> {u. \<exists>r\<in>set repos. \<exists>cfg c. parseRepo r = Inr cfg
              \<and> c \<in> set (fetchContributors octokit now cfg options)
              \<and> username c = u \<and> min_threshold options \<le> totalContributions c}"
    using Cons.IH [of "process_repo octokit now options acc r"] step by (simp del: set_map)
  also have "\<dots> = set (map username acc)
       \<union> {u. \<exists>r'\<in>set (r # repos). \<exists>cfg c. parseRepo r' = Inr cfg
              \<and> c \<in> set (fetchContributors octokit now cfg options)
              \<and> username c = u \<and> min_threshold options \<le> totalContributions c}"
    by auto
  finally show ?case .
qed

lemma sorted_sort_by_total:
  "sorted_wrt (\<lambda>a b. totalContributions a \<ge> totalContributions b) (sort_by_total cs)"
proof -
  have "sorted (map (\<lambda>c. - totalContributions c) (sort_by_total cs))"
    by (simp add: sort_by_total_def)
  then show ?thesis by (simp add: sorted_map)
qed

text \<open>
  Claim C1, as the code has it. The filter is applied to the records of each repository
  before they are merged into the accumulated set: a username is exported exactly when
  some repository argument parses and the record that this repository's fetch returns
  for the user has a total of at least the threshold (a missing or zero threshold counts
  as 1). The exported list is sorted by total, descending.
\<close>

theorem filter_applied_per_repository:
  "set (map username (main_contributors octokit now options repos))
     = {u. \<exists>r\<in>set repos. \<exists>cfg c. parseRepo r = Inr cfg
            \<and> c \<in> set (fetchContributors octokit now cfg options)
            \<and> username c = u \<and> min_threshold options \<le> totalContributions c}
   \<and> sorted_wrt (\<lambda>a b. totalContributions a \<ge> totalContributions b)
        (main_contributors octokit now options repos)"
proof
  have "set (map username (main_contributors octokit now options repos))
          = set (map username (process_repos octokit now options [] repos))"
    by (simp add: main_contributors_def sort_by_total_def)
  then show "set (map username (main_contributors octokit now options repos))
     = {u. \<exists>r\<in>set repos. \<exists>cfg c. parseRepo r = Inr cfg
            \<and> c \<in> set (fetchContributors octokit now cfg options)
            \<and> username c = u \<and> min_threshold options \<le> totalContributions c}"
    by (simp add: usernames_process_repos del: set_map)
  show "sorted_wrt (\<lambda>a b. totalContributions a \<ge> totalContributions b)
        (main_contributors octokit now options repos)"
    by (simp add: main_contributors_def sorted_sort_by_total)
qed

theorem filter_applied_per_repository_witness:
  "map username (main_contributors example_octokit 0 (example_options (Some 4))
       [''acme/widgets'', ''not-a-repo'', ''acme/tools'']) = [''alice'']
   \<and> map totalContributions (main_contributors example_octokit 0 (example_options (Some 4))
       [''acme/widgets'', ''not-a-repo'', ''acme/tools'']) = [5]
   \<and> {u. \<exists>r\<in>set [''acme/widgets'', ''not-a-repo'', ''acme/tools'']. \<exists>cfg c. parseRepo r = Inr cfg
            \<and> c \<in> set (fetchContributors example_octokit 0 cfg (example_options (Some 4)))
            \<and> username c = u
            \<and> min_threshold (example_options (Some 4)) \<le> totalContributions c} = {''alice''}"
proof -
  have a: "map username (main_contributors example_octokit 0 (example_options (Some 4))
       [''acme/widgets'', ''not-a-repo'', ''acme/tools'']) = [''alice'']"
    by code_simp
  have b: "map totalContributions (main_contributors example_octokit 0 (example_options (Some 4))
       [''acme/widgets'', ''not-a-repo'', ''acme/tools'']) = [5]"
    by code_simp
  show ?thesis
    using a b filter_applied_per_repository [of example_octokit 0 "example_options (Some 4)"
        "[''acme/widgets'', ''not-a-repo'', ''acme/tools'']"]
    by (simp del: set_map)
qed

text \<open>
  The claim as stated fails: with a minimum of 6, \<open>alice\<close> has a total of 5 in one
  repository and of 3 in the other, and 8 in the merged set; the specification's ranking
  of the merged set keeps her, the program exports nobody.
\<close>

theorem filter_on_merged_set_counterexample:
  "map totalContributions
     (fetchContributors example_octokit 0
        \<lparr>owner = ''acme'', repo = ''widgets'', fullName = ''acme/widgets''\<rparr>
        (example_options (Some 6))) = [5]
   \<and> map totalContributions
     (fetchContributors example_octokit 0
        \<lparr>owner = ''acme'', repo = ''tools'', fullName = ''acme/tools''\<rparr>
        (example_options (Some 6))) = [3]
   \<and> map username
        (spec_filter_and_rank 6
           (merged_unfiltered example_octokit 0 (example_options (Some 6)) []
              [''acme/widgets'', ''acme/tools''])) = [''alice'']
   \<and> map totalContributions
        (spec_filter_and_rank 6
           (merged_unfiltered example_octokit 0 (example_options (Some 6)) []
              [''acme/widgets'', ''acme/tools''])) = [8]
   \<and> main_contributors example_octokit 0 (example_options (Some 6))
        [''acme/widgets'', ''acme/tools''] = []"
  by code_simp

section \<open>Profile lookup failures\<close>

lemma fetchUserProfile_failure:
  "users_getByUsername octokit uname = Inl err \<Longrightarrow>
   fetchUserProfile octokit uname = placeholder_profile uname"
  by (simp add: fetchUserProfile_def placeholder_profile_def)

lemma placeholder_rejected:
  "location_rejected options (placeholder_profile uname) = location_filter_set options"
  by (simp add: location_rejected_def location_filter_set_def placeholder_profile_def
      split: option.splits)

lemma new_record_placeholder:
  "profile_fields_null (new_record now cfg uname (placeholder_profile uname) tot prs iss cms ts d)"
  by (simp add: profile_fields_null_def new_record_def placeholder_profile_def)

text \<open>
  Claim C8. When the lookup of a username fails, \<open>fetchUserProfile\<close> returns the
  placeholder: name, email, location, bio, company, twitter and blog are null and the
  profile URL is \<open>https://github.com/\<close> followed by the username. The pass goes on with
  the entries that follow: in each of the three loops, an entry of a username that is not
  yet in the map and whose lookup fails either adds the record made from the placeholder
  or, when a location filter is set, adds nothing, and the rest of the entries is
  processed from that map.
\<close>

theorem profile_failure_is_recovered:
  assumes "users_getByUsername octokit uname = Inl err"
    and "uname \<noteq> []" and "map_of m uname = None"
  shows "fetchUserProfile octokit uname = placeholder_profile uname
    \<and> u_name (placeholder_profile uname) = None
    \<and> u_email (placeholder_profile uname) = None
    \<and> u_location (placeholder_profile uname) = None
    \<and> u_bio (placeholder_profile uname) = None
    \<and> u_company (placeholder_profile uname) = None
    \<and> u_twitter_username (placeholder_profile uname) = None
    \<and> u_blog (placeholder_profile uname) = None
    \<and> u_html_url (placeholder_profile uname) = ''https://github.com/'' @ uname
    \<and> (c_type c = ''User'' \<and> c_login c = Some uname \<longrightarrow>
         committer_loop octokit now cfg options (c # rest) m
           = committer_loop octokit now cfg options rest
               (if location_filter_set options then m
                else AList.update uname
                       (new_record now cfg uname (placeholder_profile uname)
                          (c_contributions c) 0 0 (c_contributions c) [] None) m))
    \<and> (pr_user_login pr = Some uname \<and> \<not> before_cutoff cutoff (pr_created_at pr) \<longrightarrow>
         pr_loop octokit now cfg options cutoff (pr # prs) m
           = pr_loop octokit now cfg options cutoff prs
               (if location_filter_set options then m
                else AList.update uname
                       (new_record now cfg uname (placeholder_profile uname) 1 1 0 0
                          [pr_title pr] (Some (pr_created_at pr))) m))
    \<and> (is_user_login issue = Some uname \<and> \<not> is_pull_request issue
         \<and> \<not> before_cutoff cutoff (is_created_at issue) \<longrightarrow>
         issue_loop octokit now cfg options cutoff (issue # iss) m
           = issue_loop octokit now cfg options cutoff iss
               (if location_filter_set options then m
                else AList.update uname
                       (new_record now cfg uname (placeholder_profile uname) 1 0 1 0
                          [is_title issue] (Some (is_created_at issue))) m))"
proof -
  have p: "fetchUserProfile octokit uname = placeholder_profile uname"
    using assms(1) by (rule fetchUserProfile_failure)
  have r: "location_rejected options (placeholder_profile uname) = location_filter_set options"
    by (rule placeholder_rejected)
  have c: "c_type c = ''User'' \<and> c_login c = Some uname \<longrightarrow>
         committer_loop octokit now cfg options (c # rest) m
           = committer_loop octokit now cfg options rest
               (if location_filter_set options then m
                else AList.update uname
                       (new_record now cfg uname (placeholder_profile uname)
                          (c_contributions c) 0 0 (c_contributions c) [] None) m)"
    using assms(2,3) by (simp add: committer_step_def p r)
  have q: "pr_user_login pr = Some uname \<and> \<not> before_cutoff cutoff (pr_created_at pr) \<longrightarrow>
         pr_loop octokit now cfg options cutoff (pr # prs) m
           = pr_loop octokit now cfg options cutoff prs
               (if location_filter_set options then m
                else AList.update uname
                       (new_record now cfg uname (placeholder_profile uname) 1 1 0 0
                          [pr_title pr] (Some (pr_created_at pr))) m)"
    using assms(2,3) by (simp add: pr_step_def p r)
  have i: "is_user_login issue = Some uname \<and> \<not> is_pull_request issue
         \<and> \<not> before_cutoff cutoff (is_created_at issue) \<longrightarrow>
         issue_loop octokit now cfg options cutoff (issue # iss) m
           = issue_loop octokit now cfg options cutoff iss
               (if location_filter_set options then m
                else AList.update uname
                       (new_record now cfg uname (placeholder_profile uname) 1 0 1 0
                          [is_title issue] (Some (is_created_at issue))) m)"
    using assms(2,3) by (simp add: issue_step_def p r)
  show ?thesis using p c q i by (simp add: placeholder_profile_def)
qed

theorem profile_failure_is_recovered_witness:
  "users_getByUsername example_octokit ''alice'' = Inl (Error ''Not Found'')
   \<and> ''alice'' \<noteq> [] \<and> map_of ([] :: contributor_map) ''alice'' = None
   \<and> fetchUserProfile example_octokit ''alice'' = placeholder_profile ''alice''
   \<and> committer_loop example_octokit 0 example_config (example_options None)
        [\<lparr>c_type = ''User'', c_login = Some ''alice'', c_contributions = 3\<rparr>,
         \<lparr>c_type = ''User'', c_login = Some ''bob'', c_contributions = 2\<rparr>] []
      = committer_loop example_octokit 0 example_config (example_options None)
        [\<lparr>c_type = ''User'', c_login = Some ''bob'', c_contributions = 2\<rparr>]
        [(''alice'', new_record 0 example_config ''alice'' (placeholder_profile ''alice'')
                      3 0 0 3 [] None)]
   \<and> map username (map_values (committer_loop example_octokit 0 example_config (example_options None)
        [\<lparr>c_type = ''User'', c_login = Some ''alice'', c_contributions = 3\<rparr>,
         \<lparr>c_type = ''User'', c_login = Some ''bob'', c_contributions = 2\<rparr>] []))
      = [''alice'', ''bob'']
   \<and> list_all profile_fields_null
        (map_values (committer_loop example_octokit 0 example_config (example_options None)
        [\<lparr>c_type = ''User'', c_login = Some ''alice'', c_contributions = 3\<rparr>,
         \<lparr>c_type = ''User'', c_login = Some ''bob'', c_contributions = 2\<rparr>] []))"
proof -
  have h1: "users_getByUsername example_octokit ''alice'' = Inl (Error ''Not Found'')"
    by (simp add: example_octokit_def)
  have h2: "''alice'' \<noteq> []" by simp
  have h3: "map_of ([] :: contributor_map) ''alice'' = None" by simp
  have f: "\<not> location_filter_set (example_options None)"
    by (simp add: location_filter_set_def example_options_def)
  have v: "map username (map_values (committer_loop example_octokit 0 example_config (example_options None)
        [\<lparr>c_type = ''User'', c_login = Some ''alice'', c_contributions = 3\<rparr>,
         \<lparr>c_type = ''User'', c_login = Some ''bob'', c_contributions = 2\<rparr>] []))
      = [''alice'', ''bob'']"
    by code_simp
  have n: "list_all profile_fields_null
        (map_values (committer_loop example_octokit 0 example_config (example_options None)
        [\<lparr>c_type = ''User'', c_login = Some ''alice'', c_contributions = 3\<rparr>,
         \<lparr>c_type = ''User'', c_login = Some ''bob'', c_contributions = 2\<rparr>] []))"
    by code_simp
  show ?thesis
    using h1 h3 v n f
      profile_failure_is_recovered [OF h1 h2 h3,
        where c = "\<lparr>c_type = ''User'', c_login = Some ''alice'', c_contributions = 3\<rparr>"
        and now = 0 and cfg = example_config and options = "example_options None"
        and rest = "[\<lparr>c_type = ''User'', c_login = Some ''bob'', c_contributions = 2\<rparr>]"]
    by simp
qed

section \<open>Titles within a repository and across repositories\<close>

lemma map_of_update_same: "map_of (AList.update k v m) k = Some v"
  by (simp add: update_conv')

text \<open>
  Claim C9. Within the passes over one repository a title is appended without looking
  whether the list has it already: for a user who is in the map with fewer than 5 titles,
  a further pull request or issue puts its title at the end of the list, also when that
  title is in the list. Only the inter-repository merge removes repetitions: its list is
  the first 5 of the different titles of the two lists.
\<close>

theorem titles_repeat_within_repository:
  assumes "map_of m uname = Some existing" and "uname \<noteq> []"
    and "length (notableContributions existing) < 5"
  shows "(pr_user_login pr = Some uname \<longrightarrow>
            map_option notableContributions (map_of (pr_step octokit now cfg options pr m) uname)
              = Some (notableContributions existing @ [pr_title pr]))
    \<and> (is_user_login issue = Some uname \<longrightarrow>
            map_option notableContributions
              (map_of (issue_step octokit now cfg options issue m) uname)
              = Some (notableContributions existing @ [is_title issue]))
    \<and> notableContributions (merge_record now existing c)
         = take 5 (array_from_set (notableContributions existing @ notableContributions c))
    \<and> distinct (notableContributions (merge_record now existing c))"
  using assms
  by (simp add: pr_step_def issue_step_def map_of_update_same pr_update_def issue_update_def
      push_title_def merge_record_def distinct_array_from_set)

theorem titles_repeat_within_repository_witness:
  "map_of [(''alice'', sample_record ''alice'' 0 1 0 [''Fix typo''] ''acme/widgets'')] ''alice''
     = Some (sample_record ''alice'' 0 1 0 [''Fix typo''] ''acme/widgets'')
   \<and> ''alice'' \<noteq> []
   \<and> length (notableContributions (sample_record ''alice'' 0 1 0 [''Fix typo''] ''acme/widgets'')) < 5
   \<and> map_option notableContributions
        (map_of (pr_step example_octokit 0 example_config (example_options None)
                   \<lparr>pr_created_at = 1704067200000, pr_user_login = Some ''alice'',
                     pr_title = ''Fix typo''\<rparr>
                   [(''alice'', sample_record ''alice'' 0 1 0 [''Fix typo''] ''acme/widgets'')])
           ''alice'')
       = Some [''Fix typo'', ''Fix typo'']
   \<and> map notableContributions
         (fetchContributors example_octokit 0 example_config (example_options None))
       = [[''Fix typo'', ''Fix typo'']]
   \<and> notableContributions
         (merge_record 0 (sample_record ''alice'' 0 1 0 [''Fix typo''] ''acme/widgets'')
            (sample_record ''alice'' 0 1 0 [''Fix typo''] ''acme/tools''))
       = [''Fix typo'']"
proof -
  have h1: "map_of [(''alice'', sample_record ''alice'' 0 1 0 [''Fix typo''] ''acme/widgets'')] ''alice''
     = Some (sample_record ''alice'' 0 1 0 [''Fix typo''] ''acme/widgets'')" by simp
  have h2: "''alice'' \<noteq> []" by simp
  have h3: "length (notableContributions (sample_record ''alice'' 0 1 0 [''Fix typo''] ''acme/widgets'')) < 5"
    by (simp add: sample_record_def)
  have e: "map notableContributions
         (fetchContributors example_octokit 0 example_config (example_options None))
       = [[''Fix typo'', ''Fix typo'']]"
    by code_simp
  have t: "notableContributions (sample_record ''alice'' 0 1 0 [''Fix typo''] ''acme/widgets'')
            = [''Fix typo'']"
    "notableContributions (sample_record ''alice'' 0 1 0 [''Fix typo''] ''acme/tools'')
            = [''Fix typo'']"
    by (simp_all add: sample_record_def)
  show ?thesis
    using h1 h3 e
      titles_repeat_within_repository [OF h1 h2 h3,
        where pr = "\<lparr>pr_created_at = 1704067200000, pr_user_login = Some ''alice'',
                     pr_title = ''Fix typo''\<rparr>"
        and octokit = example_octokit and now = 0 and cfg = example_config
        and options = "example_options None"
        and c = "sample_record ''alice'' 0 1 0 [''Fix typo''] ''acme/tools''"]
    by (simp add: t array_from_set_def)
qed

section \<open>The records written to the CSV file\<close>

lemma split_on_nonempty: "split_on sep s \<noteq> []"
  by (induction s) (auto split: list.splits)

lemma split_on_first:
  "sep \<notin> set xs \<Longrightarrow> split_on sep (xs @ sep # ys) ! 0 = xs"
proof (induction xs)
  case Nil show ?case by simp
next
  case (Cons x xs)
  then have ih: "split_on sep (xs @ sep # ys) ! 0 = xs" by simp
  obtain p ps where s: "split_on sep (xs @ sep # ys) = p # ps"
    using split_on_nonempty [of sep "xs @ sep # ys"] by (cases "split_on sep (xs @ sep # ys)") auto
  with ih have "p = xs" by simp
  then show ?case using Cons.prems s by auto
qed

lemma digit_is_digit: "0 \<le> d \<Longrightarrow> d < 10 \<Longrightarrow> is_digit (digit d)"
proof -
  assume "0 \<le> d" "d < 10"
  then have "nat d < 10" by simp
  then have "48 + nat d < 256" by simp
  then have "(of_char (char_of (48 + nat d)) :: nat) = 48 + nat d" by simp
  then show ?thesis using \<open>nat d < 10\<close> by (simp add: is_digit_def digit_def)
qed

lemma digit_mod: "is_digit (digit (n mod 10))"
  by (rule digit_is_digit) simp_all

lemma is_digit_not_T: "is_digit c \<Longrightarrow> c \<noteq> CHR ''T''"
  by (auto simp: is_digit_def)

lemma year_month_day_form: "is_YYYY_MM_DD (year_month_day t)"
  by (simp add: year_month_day_def pad4_def pad3_def pad2_def digit_mod split: prod.splits)

lemma digit_mod_not_T: "CHR ''T'' \<noteq> digit (n mod 10)"
  using is_digit_not_T [OF digit_mod [of n]] by simp

lemma year_month_day_no_T: "CHR ''T'' \<notin> set (year_month_day t)"
  by (simp add: year_month_day_def pad4_def pad3_def pad2_def digit_mod_not_T split: prod.splits)

lemma take_min_length: "take (min n (length xs)) xs = take n xs"
  by (cases "n \<le> length xs") (simp_all add: min_def)

lemma toISOString_four_digit:
  "four_digit_year t \<Longrightarrow> \<exists>rest. toISOString t = year_month_day t @ CHR ''T'' # rest"
  by (auto simp: four_digit_year_def toISOString_def year_month_day_def utc_date_def iso_year_def
      Let_def split: prod.splits)

lemma iso_day_four_digit: "four_digit_year t \<Longrightarrow> iso_day t = year_month_day t"
proof -
  assume "four_digit_year t"
  then obtain rest where "toISOString t = year_month_day t @ CHR ''T'' # rest"
    using toISOString_four_digit by blast
  then show ?thesis
    by (simp add: iso_day_def split_on_first year_month_day_no_T)
qed

lemma year_month_day_nonempty: "year_month_day t \<noteq> []"
  by (simp add: year_month_day_def pad4_def split: prod.splits)

lemma render_date_four_digit: "four_digit_year t \<Longrightarrow> render_date (Some t) = year_month_day t"
  by (simp add: render_date_def iso_day_four_digit)

text \<open>
  Claim C7. The notable-contributions column is the first min(3, length) titles joined
  with \<open>" | "\<close>. A null first or last date is written as the empty string. A date whose
  UTC year has four digits (0000 to 9999) is written as its UTC calendar date, four digits
  of the year, two of the month and two of the day, separated by \<open>-\<close>.
\<close>

theorem csv_columns:
  "csv_notableContributions (csv_record c)
     = join '' | '' (take (min 3 (length (notableContributions c))) (notableContributions c))
   \<and> (firstContribution c = None \<longrightarrow> csv_firstContribution (csv_record c) = [])
   \<and> (lastContribution c = None \<longrightarrow> csv_lastContribution (csv_record c) = [])
   \<and> (firstContribution c = Some t \<and> four_digit_year t \<longrightarrow>
        csv_firstContribution (csv_record c) = year_month_day t
        \<and> is_YYYY_MM_DD (csv_firstContribution (csv_record c)))
   \<and> (lastContribution c = Some t' \<and> four_digit_year t' \<longrightarrow>
        csv_lastContribution (csv_record c) = year_month_day t'
        \<and> is_YYYY_MM_DD (csv_lastContribution (csv_record c)))"
  by (simp add: csv_record_def render_date_four_digit year_month_day_form take_min_length)
     (simp add: render_date_def)

theorem csv_columns_witness:
  "firstContribution
      ((sample_record ''alice'' 1 4 0 [''a'', ''b'', ''c'', ''d''] ''acme/widgets'')
         \<lparr>firstContribution := Some 1704067200000\<rparr>) = Some 1704067200000
   \<and> four_digit_year 1704067200000
   \<and> lastContribution
      ((sample_record ''alice'' 1 4 0 [''a'', ''b'', ''c'', ''d''] ''acme/widgets'')
         \<lparr>firstContribution := Some 1704067200000\<rparr>) = None
   \<and> csv_notableContributions (csv_record
        ((sample_record ''alice'' 1 4 0 [''a'', ''b'', ''c'', ''d''] ''acme/widgets'')
           \<lparr>firstContribution := Some 1704067200000\<rparr>)) = ''a | b | c''
   \<and> csv_firstContribution (csv_record
        ((sample_record ''alice'' 1 4 0 [''a'', ''b'', ''c'', ''d''] ''acme/widgets'')
           \<lparr>firstContribution := Some 1704067200000\<rparr>)) = ''2024-01-01''
   \<and> csv_lastContribution (csv_record
        ((sample_record ''alice'' 1 4 0 [''a'', ''b'', ''c'', ''d''] ''acme/widgets'')
           \<lparr>firstContribution := Some 1704067200000\<rparr>)) = []"
proof -
  let ?c = "(sample_record ''alice'' 1 4 0 [''a'', ''b'', ''c'', ''d''] ''acme/widgets'')
         \<lparr>firstContribution := Some 1704067200000\<rparr>"
  have f: "firstContribution ?c = Some 1704067200000" by simp
  have l: "lastContribution ?c = None" by (simp add: sample_record_def)
  have n: "notableContributions ?c = [''a'', ''b'', ''c'', ''d'']" by (simp add: sample_record_def)
  have y: "four_digit_year 1704067200000" by code_simp
  have d: "year_month_day 1704067200000 = ''2024-01-01''" by code_simp
  show ?thesis
    using f l y csv_columns [of ?c 1704067200000]
    by (simp add: n d)
qed

text \<open>
  The four-digit years are those of the time values from 0000-01-01T00:00:00.000Z to
  9999-12-31T23:59:59.999Z; at the next millisecond \<open>toISOString\<close> changes to a sign
  and six digits.
\<close>

lemma four_digit_year_boundaries:
  "four_digit_year (- 62167219200000) \<and> \<not> four_digit_year (- 62167219200001)
   \<and> four_digit_year 253402300799999 \<and> \<not> four_digit_year 253402300800000"
  by code_simp

lemma extended_year_rendering:
  "render_date (Some 253402300800000) = ''+010000-01-01''"
  by code_simp

section \<open>Repository references\<close>

lemma length_split_on:
  "length (split_on sep s) = Suc (length (filter (\<lambda>c. c = sep) s))"
proof (induction s)
  case Nil show ?case by simp
next
  case (Cons c s)
  obtain p ps where "split_on sep s = p # ps"
    using split_on_nonempty [of sep s] by (cases "split_on sep s") auto
  then show ?case using Cons.IH by auto
qed

text \<open>
  What the shorthand branch checks: an input without \<open>github.com\<close> is rejected exactly
  when it does not hold exactly one \<open>/\<close>. Nothing asks for the two segments to be
  non-empty.
\<close>

lemma shorthand_rejected_iff:
  "\<not> str_includes s ''github.com'' \<Longrightarrow>
   isl (parseRepo s) = (length (filter (\<lambda>c. c = CHR ''/'') s) \<noteq> 1)"
  by (simp add: parseRepo_def Let_def length_split_on)

text \<open>
  Claim C4. The claim asks for \<open>acme/\<close> and \<open>/widgets\<close> to be rejected. The program
  accepts both, with an empty repository name and an empty owner; \<open>not-a-repo\<close> and an
  input with two separators are rejected, and the URL branch rejects an empty name.
\<close>

theorem shorthand_with_empty_segment_is_accepted:
  "parseRepo ''acme/'' = Inr \<lparr>owner = ''acme'', repo = [], fullName = ''acme/''\<rparr>
   \<and> parseRepo ''/widgets'' = Inr \<lparr>owner = [], repo = ''widgets'', fullName = ''/widgets''\<rparr>
   \<and> parseRepo ''not-a-repo''
       = Inl (Error ''Invalid repo format: not-a-repo. Use 'owner/repo' or full GitHub URL'')
   \<and> isl (parseRepo ''acme/widgets/extra'')
   \<and> parseRepo ''https://github.com/acme/''
       = Inl (Error ''Invalid GitHub URL: https://github.com/acme/'')"
  by code_simp

text \<open>
  Claim C5. The claim asks for a name whose \<open>.git\<close> is not at its end to come back
  unchanged. The program removes the first \<open>.git\<close> of the name wherever it is: the
  repository \<open>acme.github.io\<close> comes back as \<open>acmehub.io\<close>. A trailing \<open>.git\<close> is
  removed as the claim says.
\<close>

theorem git_inside_name_is_removed:
  "parseRepo ''https://github.com/acme/acme.github.io''
     = Inr \<lparr>owner = ''acme'', repo = ''acmehub.io'', fullName = ''acme/acmehub.io''\<rparr>
   \<and> parseRepo ''https://github.com/acme/widgets.git''
     = Inr \<lparr>owner = ''acme'', repo = ''widgets'', fullName = ''acme/widgets''\<rparr>
   \<and> parseRepo ''acme/widgets''
     = Inr \<lparr>owner = ''acme'', repo = ''widgets'', fullName = ''acme/widgets''\<rparr>"
  by code_simp

section \<open>One record per username\<close>

lemma well_keyed_update:
  "well_keyed m \<Longrightarrow> username v = k \<Longrightarrow> well_keyed (AList.update k v m)"
  by (simp add: well_keyed_def keyed_update distinct_update)

lemma well_keyed_Nil: "well_keyed []"
  by (simp add: well_keyed_def keyed_def)

lemma username_new_record [simp]:
  "username (new_record now cfg u prof tot prs iss cms ts d) = u"
  by (simp add: new_record_def)

lemma well_keyed_lookup: "well_keyed m \<Longrightarrow> map_of m k = Some e \<Longrightarrow> username e = k"
  unfolding well_keyed_def by (blast intro: keyed_lookup)

lemma well_keyed_committer_step:
  "well_keyed m \<Longrightarrow> well_keyed (committer_step octokit now cfg options c m)"
  by (auto simp: committer_step_def Let_def split: option.splits
      intro!: well_keyed_update dest: well_keyed_lookup)

lemma well_keyed_pr_step:
  "well_keyed m \<Longrightarrow> well_keyed (pr_step octokit now cfg options pr m)"
  by (auto simp: pr_step_def Let_def pr_update_def split: option.splits
      intro!: well_keyed_update dest: well_keyed_lookup)

lemma well_keyed_issue_step:
  "well_keyed m \<Longrightarrow> well_keyed (issue_step octokit now cfg options issue m)"
  by (auto simp: issue_step_def Let_def issue_update_def split: option.splits
      intro!: well_keyed_update dest: well_keyed_lookup)

lemma well_keyed_committer_loop:
  "well_keyed m \<Longrightarrow> well_keyed (committer_loop octokit now cfg options cs m)"
  by (induction cs arbitrary: m) (simp_all add: well_keyed_committer_step)

lemma well_keyed_pr_loop:
  "well_keyed m \<Longrightarrow> well_keyed (fst (pr_loop octokit now cfg options cutoff prs m))"
  by (induction prs arbitrary: m) (simp_all add: well_keyed_pr_step)

lemma well_keyed_issue_loop:
  "well_keyed m \<Longrightarrow> well_keyed (fst (issue_loop octokit now cfg options cutoff iss m))"
  by (induction iss arbitrary: m) (simp_all add: well_keyed_issue_step)

lemma well_keyed_pr_pages:
  "well_keyed m \<Longrightarrow> well_keyed (pr_pages octokit now cfg options cutoff page m)"
proof (induction octokit now cfg options cutoff page m rule: pr_pages.induct)
  case (1 octokit now cfg options cutoff page m)
  show ?case
  proof (cases "page \<le> 3")
    case False
    then show ?thesis using "1.prems" by (simp add: pr_pages.simps)
  next
    case True
    show ?thesis
    proof (cases "pulls_list octokit (owner cfg) (repo cfg) page")
      case (Inl err)
      then show ?thesis using True "1.prems" by (simp add: pr_pages.simps)
    next
      case (Inr data)
      show ?thesis
      proof (cases "length data = 0")
        case True
        then show ?thesis using \<open>page \<le> 3\<close> Inr "1.prems" by (simp add: pr_pages.simps)
      next
        case False
        obtain m' hasMore where l: "pr_loop octokit now cfg options cutoff data m = (m', hasMore)"
          by (cases "pr_loop octokit now cfg options cutoff data m")
        have "well_keyed (fst (pr_loop octokit now cfg options cutoff data m))"
          using "1.prems" by (rule well_keyed_pr_loop)
        then have inv': "well_keyed m'" using l by simp
        show ?thesis
        proof (cases hasMore)
          case True
          have "well_keyed (pr_pages octokit now cfg options cutoff (page + 1) m')"
            using "1.IH" [OF \<open>page \<le> 3\<close> Inr False l [symmetric] True inv'] .
          then show ?thesis
            using \<open>page \<le> 3\<close> Inr False l True
            by (simp add: pr_pages.simps [of octokit now cfg options cutoff page m])
        next
          case hm: False
          show ?thesis
            using \<open>page \<le> 3\<close> Inr False l hm inv'
            by (simp add: pr_pages.simps [of octokit now cfg options cutoff page m])
        qed
      qed
    qed
  qed
qed

lemma well_keyed_issue_pages:
  "well_keyed m \<Longrightarrow> well_keyed (issue_pages octokit now cfg options cutoff page m)"
proof (induction octokit now cfg options cutoff page m rule: issue_pages.induct)
  case (1 octokit now cfg options cutoff page m)
  show ?case
  proof (cases "page \<le> 3")
    case False
    then show ?thesis using "1.prems" by (simp add: issue_pages.simps)
  next
    case True
    show ?thesis
    proof (cases "issues_listForRepo octokit (owner cfg) (repo cfg) page")
      case (Inl err)
      then show ?thesis using True "1.prems" by (simp add: issue_pages.simps)
    next
      case (Inr data)
      show ?thesis
      proof (cases "length data = 0")
        case True
        then show ?thesis using \<open>page \<le> 3\<close> Inr "1.prems" by (simp add: issue_pages.simps)
      next
        case False
        obtain m' hasMore where l: "issue_loop octokit now cfg options cutoff data m = (m', hasMore)"
          by (cases "issue_loop octokit now cfg options cutoff data m")
        have "well_keyed (fst (issue_loop octokit now cfg options cutoff data m))"
          using "1.prems" by (rule well_keyed_issue_loop)
        then have inv': "well_keyed m'" using l by simp
        show ?thesis
        proof (cases hasMore)
          case True
          have "well_keyed (issue_pages octokit now cfg options cutoff (page + 1) m')"
            using "1.IH" [OF \<open>page \<le> 3\<close> Inr False l [symmetric] True inv'] .
          then show ?thesis
            using \<open>page \<le> 3\<close> Inr False l True
            by (simp add: issue_pages.simps [of octokit now cfg options cutoff page m])
        next
          case hm: False
          show ?thesis
            using \<open>page \<le> 3\<close> Inr False l hm inv'
            by (simp add: issue_pages.simps [of octokit now cfg options cutoff page m])
        qed
      qed
    qed
  qed
qed

lemma well_keyed_distinct_usernames:
  "well_keyed m \<Longrightarrow> distinct (map username (map snd m))"
proof -
  assume w: "well_keyed m"
  then have k: "keyed m" and d: "distinct (map fst m)" by (simp_all add: well_keyed_def)
  have "map username (map snd m) = map fst m" using k by (rule keyed_values)
  then show ?thesis using d by (simp only:)
qed

text \<open>
  The result sets of the program hold one record per username: what \<open>fetchContributors\<close>
  returns, what \<open>mergeContributors\<close> returns (whatever its arguments), and hence the
  accumulated set of \<open>main\<close> at every turn of its loop.
\<close>

lemma distinct_fetchContributors:
  "distinct (map username (fetchContributors octokit now cfg options))"
proof -
  let ?m1 = "if includeCommitters options \<noteq> Some False
             then fetchCommitters octokit now cfg [] options else []"
  let ?m2 = "if includePRAuthors options \<noteq> Some False
             then fetchPRAuthors octokit now cfg ?m1 options else ?m1"
  let ?m3 = "if includeIssueCreators options \<noteq> Some False
             then fetchIssueCreators octokit now cfg ?m2 options else ?m2"
  have "well_keyed (fetchCommitters octokit now cfg [] options)"
    by (simp add: fetchCommitters_def well_keyed_committer_loop well_keyed_Nil split: sum.splits)
  then have m1: "well_keyed ?m1" by (simp add: well_keyed_Nil)
  have "well_keyed (fetchPRAuthors octokit now cfg ?m1 options)"
    unfolding fetchPRAuthors_def using m1 by (rule well_keyed_pr_pages)
  then have m2: "well_keyed ?m2" using m1 by presburger
  have "well_keyed (fetchIssueCreators octokit now cfg ?m2 options)"
    unfolding fetchIssueCreators_def using m2 by (rule well_keyed_issue_pages)
  then have m3: "well_keyed ?m3" using m2 by presburger
  from m3 have "distinct (map username (map snd ?m3))" by (rule well_keyed_distinct_usernames)
  then show ?thesis unfolding fetchContributors_def map_values_def Let_def .
qed

lemma distinct_mergeContributors:
  "distinct (map username (mergeContributors now ex nw))"
  by (simp add: mergeContributors_usernames distinct_array_from_set)

lemma distinct_process_repos:
  "distinct (map username acc) \<Longrightarrow>
   distinct (map username (process_repos octokit now options acc repos))"
proof (induction repos arbitrary: acc)
  case Nil then show ?case by simp
next
  case (Cons r repos)
  have "distinct (map username (process_repo octokit now options acc r))"
    using Cons.prems
    by (simp add: process_repo_def Let_def distinct_mergeContributors split: sum.splits)
  then show ?case by (simp add: Cons.IH)
qed

text \<open>The worked example of the specification.\<close>

lemma alice_example:
  "fetchContributors alice_octokit 0 example_config (example_options None)
     = [(sample_record ''alice'' 10 1 1 [''Fix bug'', ''Report bug''] ''acme/widgets'')
          \<lparr>firstContribution := Some 1704067200000, lastContribution := Some 1717200000000\<rparr>]
   \<and> render_date (Some 1704067200000) = ''2024-01-01''
   \<and> render_date (Some 1717200000000) = ''2024-06-01''"
  by code_simp

end
